theory Spec2Isabelle
  imports Main "HOL-Library.Sublist"
begin

section \<open>Strings of the host language\<close>

text \<open>
  Strings are sequences of code units; every operation used by \<open>transform-types.ts\<close>
  (\<open>includes\<close>, \<open>join\<close>, \<open>replaceAll\<close>, template literals, \<open>===\<close>) works on the
  sequence of units, so a string is modelled as a \<^typ>\<open>string\<close>.
\<close>

definition includes_str :: \<open>string \<Rightarrow> string \<Rightarrow> bool\<close> where
  \<open>includes_str s searchString = sublist searchString s\<close>

fun join :: \<open>string \<Rightarrow> string list \<Rightarrow> string\<close> where
  \<open>join separator [] = []\<close>
| \<open>join separator [x] = x\<close>
| \<open>join separator (x # y # ys) = x @ separator @ join separator (y # ys)\<close>

text \<open>
  \<open>GetSubstitution\<close> of the language standard, for a string pattern: there are no
  captures, so of the \<open>$\<close> patterns of the replacement template only \<open>$$\<close>, \<open>$&\<close>,
  \<open>$`\<close> and \<open>$'\<close> are special; \<open>$1\<close>, \<open>$<\<close> and a lone \<open>$\<close> stand for themselves.
  \<open>preceding\<close> is the text in front of the match and \<open>following\<close> the text behind it.
\<close>

fun getSubstitution :: \<open>string \<Rightarrow> string \<Rightarrow> string \<Rightarrow> string \<Rightarrow> string\<close> where
  \<open>getSubstitution matched preceding following [] = []\<close>
| \<open>getSubstitution matched preceding following [c] = [c]\<close>
| \<open>getSubstitution matched preceding following (c # d # t) =
     (if c = CHR ''$'' \<and> d = CHR ''$''
      then CHR ''$'' # getSubstitution matched preceding following t
      else if c = CHR ''$'' \<and> d = CHR 0x60
      then preceding @ getSubstitution matched preceding following t
      else if c = CHR ''$'' \<and> d = CHR ''&''
      then matched @ getSubstitution matched preceding following t
      else if c = CHR ''$'' \<and> d = CHR 0x27
      then following @ getSubstitution matched preceding following t
      else c # getSubstitution matched preceding following (d # t))\<close>

text \<open>
  \<open>String.prototype.replaceAll\<close> with a string pattern: the matches are found from left
  to right, the search going on behind the end of the last match (one unit further when
  the pattern is empty); \<open>preceding\<close> is the part of the string already passed.
\<close>

function replaceAllFrom :: \<open>string \<Rightarrow> string \<Rightarrow> string \<Rightarrow> string \<Rightarrow> string\<close> where
  \<open>replaceAllFrom searchString replaceValue preceding rest =
     (if prefix searchString rest then
        getSubstitution searchString preceding (drop (length searchString) rest) replaceValue @
        (if searchString = [] then
           (case rest of [] \<Rightarrow> []
            | c # cs \<Rightarrow> c # replaceAllFrom searchString replaceValue (preceding @ [c]) cs)
         else replaceAllFrom searchString replaceValue (preceding @ searchString)
                (drop (length searchString) rest))
      else
        (case rest of [] \<Rightarrow> []
         | c # cs \<Rightarrow> c # replaceAllFrom searchString replaceValue (preceding @ [c]) cs))\<close>
  by pat_completeness auto
termination
  by (relation \<open>measure (\<lambda>(p, r, b, rest). length rest)\<close>) (auto simp: prefix_def)

declare replaceAllFrom.simps [simp del]

definition replaceAll :: \<open>string \<Rightarrow> string \<Rightarrow> string \<Rightarrow> string\<close> where
  \<open>replaceAll s searchString replaceValue = replaceAllFrom searchString replaceValue [] s\<close>

section \<open>The syntax tree of the parser\<close>

text \<open>
  The parser is a library outside the repository. Its tree is modelled by the node kinds
  that \<open>transformTypes\<close> tests for, with the properties it reads: \<open>name\<close>, \<open>type\<close>,
  \<open>text\<close> (here \<open>nodeText\<close>), the children that \<open>forEachChild\<close> visits (in source
  order) and the source text \<open>getText\<close>. The name of a type alias or of an interface is
  always an \<open>Identifier\<close>; the members of a type literal are the children that
  \<open>forEachChild\<close> visits. A node of any other kind is an \<open>OtherNode\<close>.
\<close>

datatype node =
    isIdentifier: Identifier (nodeText: string)
  | isPropertySignature: PropertySignature
      (name: node) (forEachChild: \<open>node list\<close>) (getText: string)
  | isTypeLiteralNode: TypeLiteralNode (forEachChild: \<open>node list\<close>) (getText: string)
  | isTupleTypeNode: TupleTypeNode (getText: string)
  | isUnionTypeNode: UnionTypeNode (getText: string)
  | isLiteralTypeNode: LiteralTypeNode (getText: string)
  | isTypeReferenceNode: TypeReferenceNode (getText: string)
  | isTypeAliasDeclaration: TypeAliasDeclaration
      (name: node) (type: node) (getText: string)
  | isInterfaceDeclaration: InterfaceDeclaration
      (name: node) (forEachChild: \<open>node list\<close>) (getText: string)
  | OtherNode (getText: string)

abbreviation members :: \<open>node \<Rightarrow> node list\<close> where
  \<open>members n \<equiv> forEachChild n\<close>

section \<open>Options, errors and the collected state\<close>

datatype error = ZodError

text \<open>
  The options after validation. A formatter is the function the validation library
  returns for it: called with strings it runs the caller's function and fails with
  \<open>ZodError\<close> when the result is not a string.
\<close>

record options =
  sourceText :: string
  schema :: string
  enumFormatter :: \<open>string \<Rightarrow> error + string\<close>
  compositeTypeFormatter :: \<open>string \<Rightarrow> error + string\<close>
  functionFormatter :: \<open>string \<Rightarrow> string \<Rightarrow> error + string\<close>
  tableOrViewFormatter :: \<open>string \<Rightarrow> string \<Rightarrow> error + string\<close>
  relationships :: bool
  updates :: bool
  inserts :: bool
  deletes :: bool

record state =
  typeStrings :: \<open>string list\<close>
  enumNames :: \<open>(string \<times> string) list\<close>
  compositeTypeNames :: \<open>(string \<times> string) list\<close>

definition initial :: state where
  \<open>initial = \<lparr>typeStrings = [], enumNames = [], compositeTypeNames = []\<rparr>\<close>

definition andThen :: \<open>error + 'a \<Rightarrow> ('a \<Rightarrow> error + 'b) \<Rightarrow> error + 'b\<close> where
  \<open>andThen r f = (case r of Inl e \<Rightarrow> Inl e | Inr x \<Rightarrow> f x)\<close>

text \<open>A loop over children or members: the first error ends it.\<close>

fun forEach :: \<open>('a \<Rightarrow> 's \<Rightarrow> error + 's) \<Rightarrow> 'a list \<Rightarrow> 's \<Rightarrow> error + 's\<close> where
  \<open>forEach callback [] s = Inr s\<close>
| \<open>forEach callback (x # xs) s = andThen (callback x s) (forEach callback xs)\<close>

text \<open>
  A validated formatter checks its arguments first: a name that \<open>getNodeName\<close> did not
  find (\<open>undefined\<close>) is not a string, and the call fails. The formatters of one
  argument are called in \<open>pushEnum\<close> and \<open>compositeType\<close>, with the same check.
\<close>

definition callFormatter2 ::
  \<open>(string \<Rightarrow> string \<Rightarrow> error + string) \<Rightarrow> string option \<Rightarrow> string option \<Rightarrow> error + string\<close> where
  \<open>callFormatter2 formatter a b =
     (case a of None \<Rightarrow> Inl ZodError
      | Some x \<Rightarrow> (case b of None \<Rightarrow> Inl ZodError | Some y \<Rightarrow> formatter x y))\<close>

definition exportType :: \<open>string \<Rightarrow> node \<Rightarrow> string\<close> where
  \<open>exportType formattedName n = ''export type '' @ formattedName @ '' = '' @ getText n\<close>

definition push :: \<open>string \<Rightarrow> state \<Rightarrow> state\<close> where
  \<open>push str s = s\<lparr>typeStrings := typeStrings s @ [str]\<rparr>\<close>

section \<open>The extraction: the nested callbacks of \<open>transformTypes\<close>\<close>

text \<open>
  Every callback of the source is one definition here, innermost first; it takes the
  state (the three arrays the callbacks push to) and returns it updated, or the error
  a formatter call raised. \<open>getNodeName\<close> is imported from a file that is not part of the
  sources at hand, so it is a parameter: a function from a node to its name, if any.
\<close>

subsection \<open>Tables and views (lines 78 to 124)\<close>

definition operationType ::
  \<open>options \<Rightarrow> string option \<Rightarrow> string \<Rightarrow> node \<Rightarrow> state \<Rightarrow> error + state\<close> where
  \<open>operationType opts tableOrViewName operation n s =
     (if isTypeLiteralNode n \<or> isTupleTypeNode n then
        andThen (callFormatter2 (tableOrViewFormatter opts) tableOrViewName (Some operation))
          (\<lambda>formattedName. Inr (push (exportType formattedName n) s))
      else Inr s)\<close>

definition skipped :: \<open>options \<Rightarrow> string option \<Rightarrow> bool\<close> where
  \<open>skipped opts operation \<longleftrightarrow>
     (operation = Some ''Relationships'' \<and> \<not> relationships opts) \<or>
     (operation = Some ''Insert'' \<and> \<not> inserts opts) \<or>
     (operation = Some ''Update'' \<and> \<not> updates opts) \<or>
     (operation = Some ''Delete'' \<and> \<not> deletes opts)\<close>

definition tableOperation ::
  \<open>(node \<Rightarrow> string option) \<Rightarrow> options \<Rightarrow> string option \<Rightarrow> node \<Rightarrow> state \<Rightarrow> error + state\<close> where
  \<open>tableOperation getNodeName opts tableOrViewName n s =
     (if isPropertySignature n then
        (let operation = getNodeName n in
         if skipped opts operation then Inr s
         else (case operation of
                 None \<Rightarrow> Inr s
               | Some operationName \<Rightarrow>
                   if operationName \<noteq> [] then
                     forEach (operationType opts tableOrViewName operationName) (forEachChild n) s
                   else Inr s))
      else Inr s)\<close>

definition tableOrViewType ::
  \<open>(node \<Rightarrow> string option) \<Rightarrow> options \<Rightarrow> string option \<Rightarrow> node \<Rightarrow> state \<Rightarrow> error + state\<close> where
  \<open>tableOrViewType getNodeName opts tableOrViewName n s =
     (if isTypeLiteralNode n then
        forEach (tableOperation getNodeName opts tableOrViewName) (forEachChild n) s
      else Inr s)\<close>

definition tableOrView ::
  \<open>(node \<Rightarrow> string option) \<Rightarrow> options \<Rightarrow> node \<Rightarrow> state \<Rightarrow> error + state\<close> where
  \<open>tableOrView getNodeName opts n s =
     (if isPropertySignature n then
        (let tableOrViewName = getNodeName n in
         forEach (tableOrViewType getNodeName opts tableOrViewName) (forEachChild n) s)
      else Inr s)\<close>

definition tablesOrViewsGroup ::
  \<open>(node \<Rightarrow> string option) \<Rightarrow> options \<Rightarrow> node \<Rightarrow> state \<Rightarrow> error + state\<close> where
  \<open>tablesOrViewsGroup getNodeName opts n s =
     (if isTypeLiteralNode n then forEach (tableOrView getNodeName opts) (forEachChild n) s
      else Inr s)\<close>

subsection \<open>Enums (lines 125 to 163)\<close>

definition pushEnum :: \<open>options \<Rightarrow> string option \<Rightarrow> node \<Rightarrow> state \<Rightarrow> error + state\<close> where
  \<open>pushEnum opts enumName n s =
     (case enumName of
        None \<Rightarrow> Inl ZodError
      | Some entryName \<Rightarrow>
          andThen (enumFormatter opts entryName)
            (\<lambda>formattedName.
               Inr ((push (exportType formattedName n) s)
                      \<lparr>enumNames := enumNames s @ [(entryName, formattedName)]\<rparr>)))\<close>

definition enumType :: \<open>options \<Rightarrow> string option \<Rightarrow> node \<Rightarrow> state \<Rightarrow> error + state\<close> where
  \<open>enumType opts enumName n s =
     andThen (if isUnionTypeNode n then pushEnum opts enumName n s else Inr s)
       (\<lambda>s. if isLiteralTypeNode n then pushEnum opts enumName n s else Inr s)\<close>

definition enumEntry ::
  \<open>(node \<Rightarrow> string option) \<Rightarrow> options \<Rightarrow> node \<Rightarrow> state \<Rightarrow> error + state\<close> where
  \<open>enumEntry getNodeName opts n s =
     (let enumName = getNodeName n in
      if isPropertySignature n then forEach (enumType opts enumName) (forEachChild n) s
      else Inr s)\<close>

definition enumsGroup ::
  \<open>(node \<Rightarrow> string option) \<Rightarrow> options \<Rightarrow> node \<Rightarrow> state \<Rightarrow> error + state\<close> where
  \<open>enumsGroup getNodeName opts n s =
     (if isTypeLiteralNode n then forEach (enumEntry getNodeName opts) (forEachChild n) s
      else Inr s)\<close>

subsection \<open>Composite types (lines 164 to 189)\<close>

definition compositeType :: \<open>options \<Rightarrow> string option \<Rightarrow> node \<Rightarrow> state \<Rightarrow> error + state\<close> where
  \<open>compositeType opts enumName n s =
     (if isTypeLiteralNode n then
        (case enumName of
           None \<Rightarrow> Inl ZodError
         | Some entryName \<Rightarrow>
             andThen (compositeTypeFormatter opts entryName)
               (\<lambda>formattedName.
                  Inr ((push (exportType formattedName n) s)
                         \<lparr>compositeTypeNames :=
                            compositeTypeNames s @ [(entryName, formattedName)]\<rparr>)))
      else Inr s)\<close>

definition compositeEntry ::
  \<open>(node \<Rightarrow> string option) \<Rightarrow> options \<Rightarrow> node \<Rightarrow> state \<Rightarrow> error + state\<close> where
  \<open>compositeEntry getNodeName opts n s =
     (let enumName = getNodeName n in
      if isPropertySignature n then forEach (compositeType opts enumName) (forEachChild n) s
      else Inr s)\<close>

definition compositeTypesGroup ::
  \<open>(node \<Rightarrow> string option) \<Rightarrow> options \<Rightarrow> node \<Rightarrow> state \<Rightarrow> error + state\<close> where
  \<open>compositeTypesGroup getNodeName opts n s =
     (if isTypeLiteralNode n then forEach (compositeEntry getNodeName opts) (forEachChild n) s
      else Inr s)\<close>

subsection \<open>Functions (lines 190 to 219)\<close>

definition functionArgType ::
  \<open>options \<Rightarrow> string option \<Rightarrow> string option \<Rightarrow> node \<Rightarrow> state \<Rightarrow> error + state\<close> where
  \<open>functionArgType opts functionName argType n s =
     (if isTypeReferenceNode n then
        andThen (callFormatter2 (functionFormatter opts) functionName argType)
          (\<lambda>formattedName. Inr (push (exportType formattedName n) s))
      else Inr s)\<close>

definition functionArg ::
  \<open>(node \<Rightarrow> string option) \<Rightarrow> options \<Rightarrow> string option \<Rightarrow> node \<Rightarrow> state \<Rightarrow> error + state\<close> where
  \<open>functionArg getNodeName opts functionName n s =
     (if isPropertySignature n then
        (let argType = getNodeName n in
         forEach (functionArgType opts functionName argType) (forEachChild n) s)
      else Inr s)\<close>

definition functionType ::
  \<open>(node \<Rightarrow> string option) \<Rightarrow> options \<Rightarrow> string option \<Rightarrow> node \<Rightarrow> state \<Rightarrow> error + state\<close> where
  \<open>functionType getNodeName opts functionName n s =
     (if isTypeLiteralNode n then
        forEach (functionArg getNodeName opts functionName) (forEachChild n) s
      else Inr s)\<close>

definition functionEntry ::
  \<open>(node \<Rightarrow> string option) \<Rightarrow> options \<Rightarrow> node \<Rightarrow> state \<Rightarrow> error + state\<close> where
  \<open>functionEntry getNodeName opts n s =
     (if isPropertySignature n then
        (let functionName = getNodeName n in
         forEach (functionType getNodeName opts functionName) (forEachChild n) s)
      else Inr s)\<close>

definition functionsGroup ::
  \<open>(node \<Rightarrow> string option) \<Rightarrow> options \<Rightarrow> node \<Rightarrow> state \<Rightarrow> error + state\<close> where
  \<open>functionsGroup getNodeName opts n s =
     (if isTypeLiteralNode n then forEach (functionEntry getNodeName opts) (forEachChild n) s
      else Inr s)\<close>

subsection \<open>The schema and the top level (lines 68 to 77 and 220 to 242)\<close>

text \<open>
  The four tests on the name of a member of the schema follow one another, in the
  order of the source; each member is visited in the order of the input.
\<close>

definition schemaMember ::
  \<open>(node \<Rightarrow> string option) \<Rightarrow> options \<Rightarrow> node \<Rightarrow> state \<Rightarrow> error + state\<close> where
  \<open>schemaMember getNodeName opts n s =
     (if isPropertySignature n \<and> isIdentifier (name n) then
        andThen (if nodeText (name n) \<in> set [''Tables'', ''Views'']
                 then forEach (tablesOrViewsGroup getNodeName opts) (forEachChild n) s else Inr s)
       (\<lambda>s. andThen (if ''Enums'' = nodeText (name n)
                      then forEach (enumsGroup getNodeName opts) (forEachChild n) s else Inr s)
       (\<lambda>s. andThen (if ''CompositeTypes'' = nodeText (name n)
                      then forEach (compositeTypesGroup getNodeName opts) (forEachChild n) s else Inr s)
       (\<lambda>s. if ''Functions'' = nodeText (name n)
             then forEach (functionsGroup getNodeName opts) (forEachChild n) s else Inr s)))
      else Inr s)\<close>

definition schemaType ::
  \<open>(node \<Rightarrow> string option) \<Rightarrow> options \<Rightarrow> node \<Rightarrow> state \<Rightarrow> error + state\<close> where
  \<open>schemaType getNodeName opts n s =
     (if isTypeLiteralNode n then forEach (schemaMember getNodeName opts) (forEachChild n) s
      else Inr s)\<close>

definition processDatabase ::
  \<open>(node \<Rightarrow> string option) \<Rightarrow> options \<Rightarrow> node \<Rightarrow> state \<Rightarrow> error + state\<close> where
  \<open>processDatabase getNodeName opts n s =
     (if isPropertySignature n then
        (let schemaName = getNodeName n in
         if schemaName = Some (schema opts)
         then forEach (schemaType getNodeName opts) (forEachChild n) s
         else Inr s)
      else Inr s)\<close>

definition topLevel ::
  \<open>(node \<Rightarrow> string option) \<Rightarrow> options \<Rightarrow> node \<Rightarrow> state \<Rightarrow> error + state\<close> where
  \<open>topLevel getNodeName opts n s =
     andThen
       (if isTypeAliasDeclaration n \<and> isTypeLiteralNode (type n) \<and>
           name n = Identifier ''Database''
        then forEach (processDatabase getNodeName opts) (members (type n)) s
        else if isInterfaceDeclaration n \<and> name n = Identifier ''Database''
        then forEach (processDatabase getNodeName opts) (forEachChild n) s
        else Inr s)
       (\<lambda>s. if isTypeAliasDeclaration n \<and> name n = Identifier ''Json''
             then Inr (push (getText n) s) else Inr s)\<close>

section \<open>Filtering, joining and rewriting (lines 244 to 270)\<close>

definition enumPath :: \<open>char \<Rightarrow> string \<Rightarrow> string \<Rightarrow> string \<Rightarrow> string\<close> where
  \<open>enumPath q schemaName category entry =
     ''Database['' @ [q] @ schemaName @ [q] @ '']['' @ [q] @ category @ [q] @ '']['' @ [q] @
     entry @ [q] @ '']''\<close>

definition rewriteName :: \<open>string \<Rightarrow> string \<Rightarrow> string \<Rightarrow> string \<times> string \<Rightarrow> string\<close> where
  \<open>rewriteName schemaName category parsedTypes entry =
     (case entry of (entryName, formattedName) \<Rightarrow>
        replaceAll
          (replaceAll parsedTypes (enumPath (CHR ''"'') schemaName category entryName) formattedName)
          (enumPath (CHR 0x27) schemaName category entryName) formattedName)\<close>

definition rewriteNames :: \<open>string \<Rightarrow> string \<Rightarrow> (string \<times> string) list \<Rightarrow> string \<Rightarrow> string\<close> where
  \<open>rewriteNames schemaName category entries parsedTypes =
     foldl (rewriteName schemaName category) parsedTypes entries\<close>

definition retained :: \<open>string list \<Rightarrow> string list\<close> where
  \<open>retained strs = filter (\<lambda>s. \<not> includes_str s ''Record<number'') strs\<close>

definition joinTypes :: \<open>string list \<Rightarrow> string\<close> where
  \<open>joinTypes strs = join [CHR '';'', CHR 0x0A] (retained strs)\<close>

definition assemble :: \<open>options \<Rightarrow> state \<Rightarrow> string\<close> where
  \<open>assemble opts s =
     rewriteNames (schema opts) ''CompositeTypes'' (compositeTypeNames s)
       (rewriteNames (schema opts) ''Enums'' (enumNames s) (joinTypes (typeStrings s)))\<close>

text \<open>
  The function given to \<open>implement\<close> (lines 46 to 271). The parser is a parameter: it
  maps the source text to the children of the source file.
\<close>

definition collect ::
  \<open>(node \<Rightarrow> string option) \<Rightarrow> options \<Rightarrow> node list \<Rightarrow> error + state\<close> where
  \<open>collect getNodeName opts sourceFile = forEach (topLevel getNodeName opts) sourceFile initial\<close>

definition transformTypesImpl ::
  \<open>(string \<Rightarrow> node list) \<Rightarrow> (node \<Rightarrow> string option) \<Rightarrow> options \<Rightarrow> error + string\<close> where
  \<open>transformTypesImpl createSourceFile getNodeName opts =
     (let sourceFile = createSourceFile (sourceText opts) in
      andThen (collect getNodeName opts sourceFile) (\<lambda>s. Inr (assemble opts s)))\<close>

section \<open>The validation of the options (lines 5 to 46)\<close>

text \<open>
  The values a caller can pass. Of a number only the fact that it is neither a string
  nor a boolean matters here; a function value has its declared number of parameters
  and its behaviour on the string arguments it is called with.
\<close>

datatype jsValue =
    isUndefined: Undefined
  | JsNull
  | isJsBoolean: JsBoolean bool
  | JsNumber int
  | isJsString: JsString string
  | isJsFunction: JsFunction nat \<open>string list \<Rightarrow> jsValue\<close>

text \<open>
  The schemas of the validation library, as far as \<open>transformTypesOptionsSchema\<close> uses
  them. A function schema accepts every function value and returns it wrapped: the
  wrapper checks the result of each call. A default replaces \<open>undefined\<close> before the
  inner schema is applied.
\<close>

definition zString :: \<open>jsValue \<Rightarrow> error + string\<close> where
  \<open>zString v = (case v of JsString str \<Rightarrow> Inr str | _ \<Rightarrow> Inl ZodError)\<close>

definition zBoolean :: \<open>jsValue \<Rightarrow> error + bool\<close> where
  \<open>zBoolean v = (case v of JsBoolean b \<Rightarrow> Inr b | _ \<Rightarrow> Inl ZodError)\<close>

definition zFunction1 :: \<open>jsValue \<Rightarrow> error + (string \<Rightarrow> error + string)\<close> where
  \<open>zFunction1 v =
     (case v of JsFunction arity f \<Rightarrow> Inr (\<lambda>a. zString (f [a])) | _ \<Rightarrow> Inl ZodError)\<close>

definition zFunction2 :: \<open>jsValue \<Rightarrow> error + (string \<Rightarrow> string \<Rightarrow> error + string)\<close> where
  \<open>zFunction2 v =
     (case v of JsFunction arity f \<Rightarrow> Inr (\<lambda>a b. zString (f [a, b])) | _ \<Rightarrow> Inl ZodError)\<close>

definition zDefault :: \<open>jsValue \<Rightarrow> (jsValue \<Rightarrow> error + 'a) \<Rightarrow> jsValue \<Rightarrow> error + 'a\<close> where
  \<open>zDefault d inner v = inner (case v of Undefined \<Rightarrow> d | _ \<Rightarrow> v)\<close>

definition defaultFormatter1 :: jsValue where
  \<open>defaultFormatter1 =
     JsFunction 1 (\<lambda>args. case args of [] \<Rightarrow> Undefined | a # _ \<Rightarrow> JsString a)\<close>

definition defaultFormatter2 :: jsValue where
  \<open>defaultFormatter2 =
     JsFunction 2 (\<lambda>args. case args of
                      [] \<Rightarrow> JsString ''undefinedundefined''
                    | [a] \<Rightarrow> JsString (a @ ''undefined'')
                    | a # b # _ \<Rightarrow> JsString (a @ b))\<close>

text \<open>An object is read by its keys; a key it does not have reads as \<open>undefined\<close>.\<close>

definition transformTypesOptionsSchema :: \<open>(string \<Rightarrow> jsValue) \<Rightarrow> error + options\<close> where
  \<open>transformTypesOptionsSchema input =
     andThen (zString (input ''sourceText'')) (\<lambda>v1.
     andThen (zDefault (JsString ''public'') zString (input ''schema'')) (\<lambda>v2.
     andThen (zDefault defaultFormatter1 zFunction1 (input ''enumFormatter'')) (\<lambda>v3.
     andThen (zDefault defaultFormatter1 zFunction1 (input ''compositeTypeFormatter'')) (\<lambda>v4.
     andThen (zDefault defaultFormatter2 zFunction2 (input ''functionFormatter'')) (\<lambda>v5.
     andThen (zDefault defaultFormatter2 zFunction2 (input ''tableOrViewFormatter'')) (\<lambda>v6.
     andThen (zDefault (JsBoolean False) zBoolean (input ''relationships'')) (\<lambda>v7.
     andThen (zDefault (JsBoolean False) zBoolean (input ''updates'')) (\<lambda>v8.
     andThen (zDefault (JsBoolean False) zBoolean (input ''inserts'')) (\<lambda>v9.
     andThen (zDefault (JsBoolean False) zBoolean (input ''deletes'')) (\<lambda>v10.
       Inr \<lparr>sourceText = v1, schema = v2, enumFormatter = v3, compositeTypeFormatter = v4,
            functionFormatter = v5, tableOrViewFormatter = v6, relationships = v7,
            updates = v8, inserts = v9, deletes = v10\<rparr>))))))))))\<close>

text \<open>
  The exported function: the implementation wrapped by the validation of its argument
  (its result, a string, always passes the check of the return value).
\<close>

definition transformTypes ::
  \<open>(string \<Rightarrow> node list) \<Rightarrow> (node \<Rightarrow> string option) \<Rightarrow> (string \<Rightarrow> jsValue) \<Rightarrow> error + string\<close> where
  \<open>transformTypes createSourceFile getNodeName input =
     andThen (transformTypesOptionsSchema input) (transformTypesImpl createSourceFile getNodeName)\<close>

section \<open>Notions used to state the properties\<close>

text \<open>
  The members that \<open>processDatabase\<close> is applied to for a top-level node (lines 229 to
  237).
\<close>

definition databaseMembers :: \<open>node \<Rightarrow> node list\<close> where
  \<open>databaseMembers n =
     (if isTypeAliasDeclaration n \<and> isTypeLiteralNode (type n) \<and>
         name n = Identifier ''Database''
      then members (type n)
      else if isInterfaceDeclaration n \<and> name n = Identifier ''Database''
      then forEachChild n
      else [])\<close>

definition isJson :: \<open>node \<Rightarrow> bool\<close> where
  \<open>isJson n \<longleftrightarrow> isTypeAliasDeclaration n \<and> name n = Identifier ''Json''\<close>

text \<open>An argument that the schema of the options rejects.\<close>

definition invalidShape :: \<open>(string \<Rightarrow> jsValue) \<Rightarrow> bool\<close> where
  \<open>invalidShape input \<longleftrightarrow>
     \<not> isJsString (input ''sourceText'') \<or>
     \<not> (isUndefined (input ''schema'') \<or> isJsString (input ''schema'')) \<or>
     (\<exists>key\<in>set [''enumFormatter'', ''compositeTypeFormatter'', ''functionFormatter'',
                  ''tableOrViewFormatter''].
        \<not> (isUndefined (input key) \<or> isJsFunction (input key))) \<or>
     (\<exists>key\<in>set [''relationships'', ''updates'', ''inserts'', ''deletes''].
        \<not> (isUndefined (input key) \<or> isJsBoolean (input key)))\<close>


text \<open>
  The rewriting one declaration goes through, and the condition under which the
  rewriting of the joined text is the rewriting of each declaration: no path contains a
  character of the separator, and no formatted name a \<open>$\<close> pattern.
\<close>

definition rewriteDeclaration :: \<open>options \<Rightarrow> state \<Rightarrow> string \<Rightarrow> string\<close> where
  \<open>rewriteDeclaration opts s declaration =
     rewriteNames (schema opts) ''CompositeTypes'' (compositeTypeNames s)
       (rewriteNames (schema opts) ''Enums'' (enumNames s) declaration)\<close>

definition rewritable :: \<open>options \<Rightarrow> state \<Rightarrow> bool\<close> where
  \<open>rewritable opts s \<longleftrightarrow>
     CHR '';'' \<notin> set (schema opts) \<and> CHR 0x0A \<notin> set (schema opts) \<and>
     (\<forall>entry\<in>set (enumNames s) \<union> set (compositeTypeNames s).
        CHR '';'' \<notin> set (fst entry) \<and> CHR 0x0A \<notin> set (fst entry) \<and>
        CHR ''$'' \<notin> set (snd entry))\<close>

text \<open>A text contains one of the two spellings of the path to an entry.\<close>

definition refersTo :: \<open>string \<Rightarrow> string \<Rightarrow> string \<Rightarrow> string \<Rightarrow> bool\<close> where
  \<open>refersTo schemaName category declaration entryName \<longleftrightarrow>
     (\<exists>q\<in>{CHR ''"'', CHR 0x27}.
        includes_str declaration (enumPath q schemaName category entryName))\<close>

definition allFlagsOff :: \<open>options \<Rightarrow> options\<close> where
  \<open>allFlagsOff opts =
     opts\<lparr>relationships := False, updates := False, inserts := False, deletes := False\<rparr>\<close>

definition appendState :: \<open>state \<Rightarrow> state \<Rightarrow> state\<close> where
  \<open>appendState s d =
     \<lparr>typeStrings = typeStrings s @ typeStrings d,
      enumNames = enumNames s @ enumNames d,
      compositeTypeNames = compositeTypeNames s @ compositeTypeNames d\<rparr>\<close>

text \<open>
  Two runs of a callback, on states related by \<open>R\<close>: when the second returns, so does
  the first, and the results are related again.
\<close>

definition simulates ::
  \<open>('s \<Rightarrow> 's \<Rightarrow> bool) \<Rightarrow> ('s \<Rightarrow> error + 's) \<Rightarrow> ('s \<Rightarrow> error + 's) \<Rightarrow> bool\<close> where
  \<open>simulates R h0 h1 \<longleftrightarrow>
     (\<forall>s0 s1 t1. R s0 s1 \<longrightarrow> h1 s1 = Inr t1 \<longrightarrow> (\<exists>t0. h0 s0 = Inr t0 \<and> R t0 t1))\<close>

text \<open>
  Two option values that differ at most in the gating flags, the first skipping every
  operation the second skips, and a relation that every push of the extraction keeps.
\<close>

definition related :: \<open>(state \<Rightarrow> state \<Rightarrow> bool) \<Rightarrow> options \<Rightarrow> options \<Rightarrow> bool\<close> where
  \<open>related R opts0 opts1 \<longleftrightarrow>
     schema opts0 = schema opts1 \<and>
     enumFormatter opts0 = enumFormatter opts1 \<and>
     compositeTypeFormatter opts0 = compositeTypeFormatter opts1 \<and>
     functionFormatter opts0 = functionFormatter opts1 \<and>
     tableOrViewFormatter opts0 = tableOrViewFormatter opts1 \<and>
     (\<forall>operation. skipped opts1 operation \<longrightarrow> skipped opts0 operation) \<and>
     (\<forall>s0 s1 str. R s0 s1 \<longrightarrow> R (push str s0) (push str s1)) \<and>
     (\<forall>s0 s1 str entryName formattedName.
        R s0 s1 \<longrightarrow> enumFormatter opts1 entryName = Inr formattedName \<longrightarrow>
        R ((push str s0)\<lparr>enumNames := enumNames s0 @ [(entryName, formattedName)]\<rparr>)
          ((push str s1)\<lparr>enumNames := enumNames s1 @ [(entryName, formattedName)]\<rparr>)) \<and>
     (\<forall>s0 s1 str entryName formattedName.
        R s0 s1 \<longrightarrow> compositeTypeFormatter opts1 entryName = Inr formattedName \<longrightarrow>
        R ((push str s0)
             \<lparr>compositeTypeNames := compositeTypeNames s0 @ [(entryName, formattedName)]\<rparr>)
          ((push str s1)
             \<lparr>compositeTypeNames := compositeTypeNames s1 @ [(entryName, formattedName)]\<rparr>)) \<and>
     ((\<exists>operation. skipped opts0 operation \<and> \<not> skipped opts1 operation) \<longrightarrow>
        (\<forall>s0 s1 str. R s0 s1 \<longrightarrow> R s0 (push str s1)))\<close>

text \<open>
  The replacements of lines 248 to 268 written out as one list of pairs of a search
  string and a replacement value: for every recorded enum, in the order of recording,
  the double-quoted and then the single-quoted spelling of its path, then the same
  for every recorded composite type; and the text that results from applying the
  replacements of a list one after the other.
\<close>

definition spellings :: \<open>string \<Rightarrow> string \<Rightarrow> string \<times> string \<Rightarrow> (string \<times> string) list\<close> where
  \<open>spellings schemaName category entry =
     [(enumPath (CHR ''"'') schemaName category (fst entry), snd entry),
      (enumPath (CHR 0x27) schemaName category (fst entry), snd entry)]\<close>

definition replacements :: \<open>options \<Rightarrow> state \<Rightarrow> (string \<times> string) list\<close> where
  \<open>replacements opts s =
     concat (map (spellings (schema opts) ''Enums'') (enumNames s)) @
     concat (map (spellings (schema opts) ''CompositeTypes'') (compositeTypeNames s))\<close>

definition replaceEach :: \<open>string \<Rightarrow> (string \<times> string) list \<Rightarrow> string\<close> where
  \<open>replaceEach parsedTypes pairs =
     foldl (\<lambda>t pair. replaceAll t (fst pair) (snd pair)) parsedTypes pairs\<close>

text \<open>
  The segments of a text \<open>u0 path u1 path ... path uk\<close> in which the path occurs at the
  places shown and nowhere else: it does not occur in any segment followed by the path
  without its last character.
\<close>

definition listed :: \<open>string \<Rightarrow> string list \<Rightarrow> bool\<close> where
  \<open>listed path segments \<longleftrightarrow>
     (\<forall>u\<in>set segments. \<not> includes_str (u @ butlast path) path)\<close>

text \<open>
  The children of an entry of \<open>Enums\<close>, and of an entry of \<open>CompositeTypes\<close>, for
  which a declaration is pushed and a name recorded (lines 132 and 146, line 171), and
  the names that a list of entries records, one for each such child, in the order of
  the source.
\<close>

definition acceptedEnumBodies :: \<open>node \<Rightarrow> node list\<close> where
  \<open>acceptedEnumBodies n =
     (if isPropertySignature n
      then filter (\<lambda>c. isUnionTypeNode c \<or> isLiteralTypeNode c) (forEachChild n) else [])\<close>



text \<open>
  Two strings one of which begins the other. A path is apart from a reference when no
  occurrence of the path in a text can overlap an occurrence of the reference: no end
  of the path and the reference, and no end of the reference but the whole and the
  path, begin one another. A list of recorded entries is clear of a reference when
  both spellings of the path of every entry are apart from it. A plain name contains
  no opening bracket and no quote.
\<close>

definition comparable :: \<open>string \<Rightarrow> string \<Rightarrow> bool\<close> where
  \<open>comparable x y \<longleftrightarrow> prefix x y \<or> prefix y x\<close>

definition apart :: \<open>string \<Rightarrow> string \<Rightarrow> bool\<close> where
  \<open>apart path reference \<longleftrightarrow>
     (\<forall>d\<in>set [0..<length path]. \<not> comparable (drop d path) reference) \<and>
     (\<forall>d\<in>set [1..<length reference]. \<not> comparable (drop d reference) path)\<close>

definition clearOf :: \<open>string \<Rightarrow> string \<Rightarrow> (string \<times> string) list \<Rightarrow> string \<Rightarrow> bool\<close> where
  \<open>clearOf schemaName category entries reference \<longleftrightarrow>
     (\<forall>entry\<in>set entries. \<forall>q\<in>{CHR ''"'', CHR 0x27}.
        apart (enumPath q schemaName category (fst entry)) reference)\<close>

definition plainName :: \<open>string \<Rightarrow> bool\<close> where
  \<open>plainName w \<longleftrightarrow> CHR ''['' \<notin> set w \<and> CHR ''"'' \<notin> set w \<and> CHR 0x27 \<notin> set w\<close>

section \<open>Inputs for the examples\<close>

text \<open>
  Modelled from the spec: \<open>getNodeName\<close> of \<open>./get-node-name\<close>, a file that is not among
  the sources. The spec says of it: given a declaration node, return its declared
  identifier as a string, or nothing if the node carries no nameable identifier. It is
  used for the examples only; the theorems hold for every function in its place.
\<close>

definition getNodeNameSpec :: \<open>node \<Rightarrow> string option\<close> where
  \<open>getNodeNameSpec n =
     (if (isPropertySignature n \<or> isTypeAliasDeclaration n \<or> isInterfaceDeclaration n) \<and>
         isIdentifier (name n)
      then Some (nodeText (name n)) else None)\<close>

text \<open>The options that the validation returns when only \<open>sourceText\<close> is given.\<close>

definition defaultOptions :: options where
  \<open>defaultOptions =
     \<lparr>sourceText = [], schema = ''public'',
      enumFormatter = (\<lambda>entryName. Inr entryName),
      compositeTypeFormatter = (\<lambda>entryName. Inr entryName),
      functionFormatter = (\<lambda>functionName argType. Inr (functionName @ argType)),
      tableOrViewFormatter = (\<lambda>tableName operation. Inr (tableName @ operation)),
      relationships = False, updates = False, inserts = False, deletes = False\<rparr>\<close>

text \<open>
  A property \<open>key: type\<close> and a type literal \<open>{ member; ... }\<close> as the parser builds
  them: the children of a property are its name and its type.
\<close>

definition property :: \<open>string \<Rightarrow> node \<Rightarrow> node\<close> where
  \<open>property key ty =
     PropertySignature (Identifier key) [Identifier key, ty] (key @ '': '' @ getText ty)\<close>

definition typeLiteral :: \<open>node list \<Rightarrow> node\<close> where
  \<open>typeLiteral ms =
     TypeLiteralNode ms (''{ '' @ concat (map (\<lambda>m. getText m @ ''; '') ms) @ ''}'')\<close>

definition database :: \<open>node list \<Rightarrow> node\<close> where
  \<open>database groups =
     (let ty = typeLiteral [property ''public'' (typeLiteral groups)]
      in TypeAliasDeclaration (Identifier ''Database'') ty (''type Database = '' @ getText ty))\<close>

text \<open>
  In the examples the parser is a function that returns the given tree. An indexed
  access type such as \<open>Database["public"]["Enums"]["mood"]\<close> and a keyword type such
  as \<open>string\<close> are nodes of none of the kinds that are tested for.
\<close>

definition omittedEnumEntry :: node where
  \<open>omittedEnumEntry = property ''level'' (TypeReferenceNode ''Levels'')\<close>


definition interfaceDatabase :: \<open>node list \<Rightarrow> node\<close> where
  \<open>interfaceDatabase groups =
     (let ty = typeLiteral [property ''public'' (typeLiteral groups)]
      in InterfaceDeclaration (Identifier ''Database'') (Identifier ''Database'' # members ty)
           (''interface Database '' @ getText ty))\<close>

definition moodGroups :: \<open>node list\<close> where
  \<open>moodGroups =
     [property ''Tables'' (typeLiteral [property ''users'' (typeLiteral
        [property ''Row'' (typeLiteral
           [property ''mood'' (OtherNode ''Database["public"]["Enums"]["mood"]'')]),
         property ''Insert'' (typeLiteral
           [property ''mood'' (OtherNode ''Database["public"]["Enums"]["mood"]'')])])]),
      property ''Enums'' (typeLiteral [property ''mood'' (UnionTypeNode ''"happy" | "sad"'')])]\<close>

definition jsonAlias :: node where
  \<open>jsonAlias =
     TypeAliasDeclaration (Identifier ''Json'') (UnionTypeNode ''string | number'')
       ''export type Json = string | number''\<close>

definition jsonOnlyExample :: \<open>node list\<close> where
  \<open>jsonOnlyExample = [jsonAlias]\<close>

definition moodEnumOnly :: \<open>node list\<close> where
  \<open>moodEnumOnly =
     [database [property ''Enums''
        (typeLiteral [property ''mood'' (UnionTypeNode ''"happy" | "sad"'')])]]\<close>

text \<open>
  An argument whose \<open>enumFormatter\<close> is a function of two parameters,
  \<open>(name, type) => `${name}${type}`\<close>, and one whose flag \<open>updates\<close> is a number.
\<close>

definition wrongArityInput :: \<open>string \<Rightarrow> jsValue\<close> where
  \<open>wrongArityInput key =
     (if key = ''sourceText'' then JsString ''type Database = {}''
      else if key = ''enumFormatter'' then defaultFormatter2
      else Undefined)\<close>

definition numberFlagInput :: \<open>string \<Rightarrow> jsValue\<close> where
  \<open>numberFlagInput key =
     (if key = ''sourceText'' then JsString ''type Database = {}''
      else if key = ''updates'' then JsNumber 1
      else Undefined)\<close>

definition numericKeyExample :: \<open>node list\<close> where
  \<open>numericKeyExample =
     [database
        [property ''Tables'' (typeLiteral [property ''stock'' (typeLiteral
           [property ''Row'' (typeLiteral
              [property ''counts''
                 (TypeReferenceNode
                    ''Record<Database["public"]["Enums"]["number_kind"], string>'')])])]),
         property ''Enums''
           (typeLiteral [property ''number_kind'' (UnionTypeNode ''"int" | "real"'')])]]\<close>

definition numericRecordExample :: \<open>node list\<close> where
  \<open>numericRecordExample =
     [database
        [property ''Tables'' (typeLiteral [property ''stock'' (typeLiteral
           [property ''Row'' (typeLiteral
              [property ''counts'' (TypeReferenceNode ''Record<number, string>'')]),
            property ''Update'' (typeLiteral
              [property ''label'' (OtherNode ''string'')])])])]]\<close>

definition numericJsonAlias :: node where
  \<open>numericJsonAlias =
     TypeAliasDeclaration (Identifier ''Json'')
       (UnionTypeNode ''string | Record<number, string>'')
       ''export type Json = string | Record<number, string>''\<close>



definition nestedPathExample :: \<open>node list\<close> where
  \<open>nestedPathExample =
     [database
        [property ''Tables'' (typeLiteral [property ''notes'' (typeLiteral
           [property ''Row'' (typeLiteral
              [property ''hint''
                 (LiteralTypeNode
                    ([CHR 0x27] @ ''Database["public"]["Enums"]["'' @
                     ''Database["public"]["Enums"]["mood"]'' @ ''"]'' @ [CHR 0x27]))])])]),
         property ''Enums''
           (typeLiteral [property ''mood'' (UnionTypeNode ''"happy" | "sad"'')])]]\<close>

text \<open>
  The scenario of the specification: an enum \<open>mood\<close> and a table \<open>users\<close> with the
  operations \<open>Row\<close>, \<open>Insert\<close> and \<open>Update\<close>, each referring to the enum.
\<close>

definition scenarioExample :: \<open>node list\<close> where
  \<open>scenarioExample =
     [database
        [property ''Tables'' (typeLiteral [property ''users'' (typeLiteral
           [property ''Row'' (typeLiteral
              [property ''mood'' (OtherNode ''Database["public"]["Enums"]["mood"]'')]),
            property ''Insert'' (typeLiteral
              [property ''mood'' (OtherNode ''Database["public"]["Enums"]["mood"]'')]),
            property ''Update'' (typeLiteral
              [property ''mood'' (OtherNode ''Database["public"]["Enums"]["mood"]'')])])]),
         property ''Enums''
           (typeLiteral [property ''mood'' (UnionTypeNode ''"happy" | "sad"'')])]]\<close>


definition suffixingOptions :: options where
  \<open>suffixingOptions =
     defaultOptions\<lparr>enumFormatter := (\<lambda>entryName. Inr (entryName @ ''_enum''))\<rparr>\<close>

text \<open>
  The entry \<open>level: Levels\<close> of \<open>Enums\<close>, whose body is a reference to another type,
  next to an entry \<open>level: "a" | "b"\<close> of the same name, and next to an entry of
  another name; a row refers to \<open>level\<close>.
\<close>

definition duplicateLevelExample :: \<open>node list\<close> where
  \<open>duplicateLevelExample =
     [database
        [property ''Tables'' (typeLiteral [property ''users'' (typeLiteral
           [property ''Row'' (typeLiteral
              [property ''level'' (OtherNode ''Database["public"]["Enums"]["level"]'')])])]),
         property ''Enums''
           (typeLiteral [omittedEnumEntry, property ''level'' (UnionTypeNode ''"a" | "b"'')])]]\<close>

definition unrecordedLevelExample :: \<open>node list\<close> where
  \<open>unrecordedLevelExample =
     [database
        [property ''Tables'' (typeLiteral [property ''users'' (typeLiteral
           [property ''Row'' (typeLiteral
              [property ''level'' (OtherNode ''Database["public"]["Enums"]["level"]''),
               property ''mood'' (OtherNode ''Database["public"]["Enums"]["mood"]'')])])]),
         property ''Enums''
           (typeLiteral [omittedEnumEntry,
                         property ''mood'' (UnionTypeNode ''"happy" | "sad"'')])]]\<close>

section \<open>The scenario of the specification\<close>

lemma scenario_of_the_specification:
  \<open>transformTypesImpl (\<lambda>src. scenarioExample) getNodeNameSpec (defaultOptions\<lparr>updates := True\<rparr>) =
     Inr (''export type usersRow = { mood: mood; }'' @ [CHR '';'', CHR 0x0A] @
          ''export type usersUpdate = { mood: mood; }'' @ [CHR '';'', CHR 0x0A] @
          ''export type mood = "happy" | "sad"'')\<close>
  by code_simp

section \<open>Lemmas about the loops and the callbacks\<close>

lemma andThen_Inr [simp]: \<open>andThen (Inr x) f = f x\<close>
  by (simp add: andThen_def)

lemma andThen_Inl [simp]: \<open>andThen (Inl e) f = Inl e\<close>
  by (simp add: andThen_def)

lemma andThen_eq_Inr: \<open>andThen r f = Inr y \<longleftrightarrow> (\<exists>x. r = Inr x \<and> f x = Inr y)\<close>
  by (cases r) simp_all

lemma forEach_append:
  \<open>forEach f (xs @ ys) s = andThen (forEach f xs s) (forEach f ys)\<close>
  by (induction xs arbitrary: s) (auto simp: andThen_def split: sum.splits)

lemma forEach_skip:
  \<open>(\<And>x s. x \<in> set xs \<Longrightarrow> f x s = Inr s) \<Longrightarrow> forEach f xs s = Inr s\<close>
  by (induction xs arbitrary: s) auto

lemma simulatesI:
  \<open>(\<And>s0 s1 t1. R s0 s1 \<Longrightarrow> h1 s1 = Inr t1 \<Longrightarrow> \<exists>t0. h0 s0 = Inr t0 \<and> R t0 t1) \<Longrightarrow> simulates R h0 h1\<close>
  by (simp add: simulates_def)

lemma simulatesD:
  \<open>simulates R h0 h1 \<Longrightarrow> R s0 s1 \<Longrightarrow> h1 s1 = Inr t1 \<Longrightarrow> \<exists>t0. h0 s0 = Inr t0 \<and> R t0 t1\<close>
  by (simp add: simulates_def)

lemma simulates_Inr: \<open>simulates R Inr Inr\<close>
  by (simp add: simulates_def)

lemma simulates_andThen:
  assumes \<open>simulates R g0 g1\<close> and \<open>simulates R h0 h1\<close>
  shows \<open>simulates R (\<lambda>s. andThen (g0 s) h0) (\<lambda>s. andThen (g1 s) h1)\<close>
proof (rule simulatesI)
  fix s0 s1 t1
  assume r: \<open>R s0 s1\<close> and run: \<open>andThen (g1 s1) h1 = Inr t1\<close>
  from run obtain m1 where g1: \<open>g1 s1 = Inr m1\<close> and h1: \<open>h1 m1 = Inr t1\<close>
    by (auto simp: andThen_eq_Inr)
  from simulatesD [OF assms(1) r g1] obtain m0 where g0: \<open>g0 s0 = Inr m0\<close> and rm: \<open>R m0 m1\<close>
    by blast
  from simulatesD [OF assms(2) rm h1] obtain t0 where \<open>h0 m0 = Inr t0\<close> and \<open>R t0 t1\<close>
    by blast
  with g0 show \<open>\<exists>t0. andThen (g0 s0) h0 = Inr t0 \<and> R t0 t1\<close>
    by simp
qed

lemma simulates_forEach:
  assumes \<open>\<And>x. x \<in> set xs \<Longrightarrow> simulates R (f0 x) (f1 x)\<close>
  shows \<open>simulates R (forEach f0 xs) (forEach f1 xs)\<close>
  using assms
proof (induction xs)
  case Nil
  show ?case by (simp add: simulates_def)
next
  case (Cons x xs)
  have \<open>simulates R (\<lambda>s. andThen (f0 x s) (forEach f0 xs)) (\<lambda>s. andThen (f1 x s) (forEach f1 xs))\<close>
    by (rule simulates_andThen) (simp_all add: Cons)
  then show ?case by (simp add: simulates_def)
qed

lemma simulates_if:
  \<open>(c \<Longrightarrow> simulates R a0 a1) \<Longrightarrow> (\<not> c \<Longrightarrow> simulates R b0 b1) \<Longrightarrow>
   simulates R (\<lambda>s. if c then a0 s else b0 s) (\<lambda>s. if c then a1 s else b1 s)\<close>
  by (simp add: simulates_def)

lemma sim_operationType:
  assumes \<open>related R opts0 opts1\<close>
  shows \<open>simulates R (operationType opts0 tn op n) (operationType opts1 tn op n)\<close>
  using assms unfolding simulates_def operationType_def related_def
  by (auto simp: andThen_eq_Inr)

lemma operationType_pushes:
  \<open>forEach (operationType opts tn op) cs s = Inr t \<Longrightarrow> \<exists>strs. t = foldl (\<lambda>s str. push str s) s strs\<close>
proof (induction cs arbitrary: s)
  case Nil
  then show ?case by (auto intro: exI [of _ \<open>[]\<close>])
next
  case (Cons c cs)
  from Cons.prems obtain m where m: \<open>operationType opts tn op c s = Inr m\<close>
    and rest: \<open>forEach (operationType opts tn op) cs m = Inr t\<close>
    by (auto simp: andThen_eq_Inr)
  from Cons.IH [OF rest] obtain strs where t: \<open>t = foldl (\<lambda>s str. push str s) m strs\<close> by blast
  from m have \<open>m = s \<or> (\<exists>str. m = push str s)\<close>
    by (auto simp: operationType_def andThen_eq_Inr split: if_splits)
  then show ?case
  proof
    assume \<open>m = s\<close> with t show ?thesis by blast
  next
    assume \<open>\<exists>str. m = push str s\<close>
    then obtain str where \<open>m = push str s\<close> by blast
    with t have \<open>t = foldl (\<lambda>s str. push str s) s (str # strs)\<close> by simp
    then show ?thesis by blast
  qed
qed

lemma related_pushes:
  assumes \<open>\<forall>s0 s1 str. R s0 s1 \<longrightarrow> R s0 (push str s1)\<close> and \<open>R s0 s1\<close>
  shows \<open>R s0 (foldl (\<lambda>s str. push str s) s1 strs)\<close>
  using assms(2) by (induction strs arbitrary: s1) (use assms(1) in auto)

lemma sim_tableOperation:
  assumes rel: \<open>related R opts0 opts1\<close>
  shows \<open>simulates R (tableOperation g opts0 tn n) (tableOperation g opts1 tn n)\<close>
proof (rule simulatesI)
  fix s0 s1 t1
  assume r: \<open>R s0 s1\<close> and run: \<open>tableOperation g opts1 tn n s1 = Inr t1\<close>
  have inner: \<open>simulates R (forEach (operationType opts0 tn op) cs) (forEach (operationType opts1 tn op) cs)\<close>
    for op cs
    by (rule simulates_forEach) (rule sim_operationType [OF rel])
  show \<open>\<exists>t0. tableOperation g opts0 tn n s0 = Inr t0 \<and> R t0 t1\<close>
  proof (cases \<open>isPropertySignature n \<and> \<not> skipped opts1 (g n) \<and> g n \<noteq> None \<and> g n \<noteq> Some []\<close>)
    case False
    with run have \<open>t1 = s1\<close>
      by (auto simp: tableOperation_def Let_def split: if_splits option.splits)
    moreover from False rel have \<open>tableOperation g opts0 tn n s0 = Inr s0\<close>
      by (auto simp: tableOperation_def Let_def related_def split: option.splits)
    ultimately show ?thesis using r by simp
  next
    case True
    then obtain op where op: \<open>g n = Some op\<close> \<open>op \<noteq> []\<close> by auto
    with True run have run1: \<open>forEach (operationType opts1 tn op) (forEachChild n) s1 = Inr t1\<close>
      by (simp add: tableOperation_def)
    show ?thesis
    proof (cases \<open>skipped opts0 (g n)\<close>)
      case False
      with True op have \<open>tableOperation g opts0 tn n s0 =
          forEach (operationType opts0 tn op) (forEachChild n) s0\<close>
        by (simp add: tableOperation_def)
      with simulatesD [OF inner r run1] show ?thesis by simp
    next
      case skip: True
      with True have \<open>tableOperation g opts0 tn n s0 = Inr s0\<close>
        by (simp add: tableOperation_def)
      moreover from skip True rel
      have \<open>\<forall>s0 s1 str. R s0 s1 \<longrightarrow> R s0 (push str s1)\<close>
        unfolding related_def by blast
      with operationType_pushes [OF run1] r have \<open>R s0 t1\<close>
        by (auto intro: related_pushes)
      ultimately show ?thesis by simp
    qed
  qed
qed

lemma sim_tableOrViewType:
  assumes \<open>related R opts0 opts1\<close>
  shows \<open>simulates R (tableOrViewType g opts0 tn n) (tableOrViewType g opts1 tn n)\<close>
proof -
  have \<open>simulates R (forEach (tableOperation g opts0 tn) cs) (forEach (tableOperation g opts1 tn) cs)\<close>
    for cs
    by (rule simulates_forEach) (rule sim_tableOperation [OF assms])
  then show ?thesis
    by (simp add: simulates_def tableOrViewType_def)
qed


lemma sim_tableOrView:
  assumes \<open>related R opts0 opts1\<close>
  shows \<open>simulates R (tableOrView g opts0 n) (tableOrView g opts1 n)\<close>
proof -
  have \<open>simulates R (forEach (tableOrViewType g opts0 a) cs) (forEach (tableOrViewType g opts1 a) cs)\<close>
    for a cs
    by (rule simulates_forEach) (rule sim_tableOrViewType [OF assms])
  then show ?thesis
    by (simp add: simulates_def tableOrView_def Let_def)
qed

lemma sim_tablesOrViewsGroup:
  assumes \<open>related R opts0 opts1\<close>
  shows \<open>simulates R (tablesOrViewsGroup g opts0 n) (tablesOrViewsGroup g opts1 n)\<close>
proof -
  have \<open>simulates R (forEach (tableOrView g opts0) cs) (forEach (tableOrView g opts1) cs)\<close>
    for cs
    by (rule simulates_forEach) (rule sim_tableOrView [OF assms])
  then show ?thesis
    by (simp add: simulates_def tablesOrViewsGroup_def Let_def)
qed

lemma sim_pushEnum:
  assumes \<open>related R opts0 opts1\<close>
  shows \<open>simulates R (pushEnum opts0 a n) (pushEnum opts1 a n)\<close>
  using assms unfolding simulates_def pushEnum_def related_def
  by (auto simp: andThen_eq_Inr split: option.splits)

lemma sim_enumType:
  assumes \<open>related R opts0 opts1\<close>
  shows \<open>simulates R (enumType opts0 a n) (enumType opts1 a n)\<close>
proof -
  have \<open>simulates R
      (\<lambda>s. andThen (if isUnionTypeNode n then pushEnum opts0 a n s else Inr s)
             (\<lambda>s. if isLiteralTypeNode n then pushEnum opts0 a n s else Inr s))
      (\<lambda>s. andThen (if isUnionTypeNode n then pushEnum opts1 a n s else Inr s)
             (\<lambda>s. if isLiteralTypeNode n then pushEnum opts1 a n s else Inr s))\<close>
    by (intro simulates_andThen simulates_if simulates_Inr sim_pushEnum [OF assms])
  then show ?thesis
    by (simp add: simulates_def enumType_def)
qed

lemma sim_enumEntry:
  assumes \<open>related R opts0 opts1\<close>
  shows \<open>simulates R (enumEntry g opts0 n) (enumEntry g opts1 n)\<close>
proof -
  have \<open>simulates R (forEach (enumType opts0 a) cs) (forEach (enumType opts1 a) cs)\<close>
    for a cs
    by (rule simulates_forEach) (rule sim_enumType [OF assms])
  then show ?thesis
    by (simp add: simulates_def enumEntry_def Let_def)
qed

lemma sim_enumsGroup:
  assumes \<open>related R opts0 opts1\<close>
  shows \<open>simulates R (enumsGroup g opts0 n) (enumsGroup g opts1 n)\<close>
proof -
  have \<open>simulates R (forEach (enumEntry g opts0) cs) (forEach (enumEntry g opts1) cs)\<close>
    for cs
    by (rule simulates_forEach) (rule sim_enumEntry [OF assms])
  then show ?thesis
    by (simp add: simulates_def enumsGroup_def Let_def)
qed

lemma sim_compositeType:
  assumes \<open>related R opts0 opts1\<close>
  shows \<open>simulates R (compositeType opts0 a n) (compositeType opts1 a n)\<close>
  using assms unfolding simulates_def compositeType_def related_def
  by (auto simp: andThen_eq_Inr split: option.splits)

lemma sim_compositeEntry:
  assumes \<open>related R opts0 opts1\<close>
  shows \<open>simulates R (compositeEntry g opts0 n) (compositeEntry g opts1 n)\<close>
proof -
  have \<open>simulates R (forEach (compositeType opts0 a) cs) (forEach (compositeType opts1 a) cs)\<close>
    for a cs
    by (rule simulates_forEach) (rule sim_compositeType [OF assms])
  then show ?thesis
    by (simp add: simulates_def compositeEntry_def Let_def)
qed

lemma sim_compositeTypesGroup:
  assumes \<open>related R opts0 opts1\<close>
  shows \<open>simulates R (compositeTypesGroup g opts0 n) (compositeTypesGroup g opts1 n)\<close>
proof -
  have \<open>simulates R (forEach (compositeEntry g opts0) cs) (forEach (compositeEntry g opts1) cs)\<close>
    for cs
    by (rule simulates_forEach) (rule sim_compositeEntry [OF assms])
  then show ?thesis
    by (simp add: simulates_def compositeTypesGroup_def Let_def)
qed

lemma sim_functionArgType:
  assumes \<open>related R opts0 opts1\<close>
  shows \<open>simulates R (functionArgType opts0 fn a n) (functionArgType opts1 fn a n)\<close>
  using assms unfolding simulates_def functionArgType_def related_def
  by (auto simp: andThen_eq_Inr)

lemma sim_functionArg:
  assumes \<open>related R opts0 opts1\<close>
  shows \<open>simulates R (functionArg g opts0 fn n) (functionArg g opts1 fn n)\<close>
proof -
  have \<open>simulates R (forEach (functionArgType opts0 fn a) cs) (forEach (functionArgType opts1 fn a) cs)\<close>
    for a cs
    by (rule simulates_forEach) (rule sim_functionArgType [OF assms])
  then show ?thesis
    by (simp add: simulates_def functionArg_def Let_def)
qed

lemma sim_functionType:
  assumes \<open>related R opts0 opts1\<close>
  shows \<open>simulates R (functionType g opts0 fn n) (functionType g opts1 fn n)\<close>
proof -
  have \<open>simulates R (forEach (functionArg g opts0 fn) cs) (forEach (functionArg g opts1 fn) cs)\<close>
    for cs
    by (rule simulates_forEach) (rule sim_functionArg [OF assms])
  then show ?thesis
    by (simp add: simulates_def functionType_def)
qed

lemma sim_functionEntry:
  assumes \<open>related R opts0 opts1\<close>
  shows \<open>simulates R (functionEntry g opts0 n) (functionEntry g opts1 n)\<close>
proof -
  have \<open>simulates R (forEach (functionType g opts0 a) cs) (forEach (functionType g opts1 a) cs)\<close>
    for a cs
    by (rule simulates_forEach) (rule sim_functionType [OF assms])
  then show ?thesis
    by (simp add: simulates_def functionEntry_def Let_def)
qed

lemma sim_functionsGroup:
  assumes \<open>related R opts0 opts1\<close>
  shows \<open>simulates R (functionsGroup g opts0 n) (functionsGroup g opts1 n)\<close>
proof -
  have \<open>simulates R (forEach (functionEntry g opts0) cs) (forEach (functionEntry g opts1) cs)\<close>
    for cs
    by (rule simulates_forEach) (rule sim_functionEntry [OF assms])
  then show ?thesis
    by (simp add: simulates_def functionsGroup_def Let_def)
qed

lemma sim_schemaMember:
  assumes \<open>related R opts0 opts1\<close>
  shows \<open>simulates R (schemaMember g opts0 n) (schemaMember g opts1 n)\<close>
proof (cases \<open>isPropertySignature n \<and> isIdentifier (name n)\<close>)
  case True
  note groups =
    simulates_forEach [of _ R \<open>tablesOrViewsGroup g opts0\<close> \<open>tablesOrViewsGroup g opts1\<close>,
      OF sim_tablesOrViewsGroup [OF assms]]
    simulates_forEach [of _ R \<open>enumsGroup g opts0\<close> \<open>enumsGroup g opts1\<close>,
      OF sim_enumsGroup [OF assms]]
    simulates_forEach [of _ R \<open>compositeTypesGroup g opts0\<close> \<open>compositeTypesGroup g opts1\<close>,
      OF sim_compositeTypesGroup [OF assms]]
    simulates_forEach [of _ R \<open>functionsGroup g opts0\<close> \<open>functionsGroup g opts1\<close>,
      OF sim_functionsGroup [OF assms]]
  have unfolded: \<open>schemaMember g opts n =
     (\<lambda>s. andThen (if nodeText (name n) \<in> set [''Tables'', ''Views'']
                 then forEach (tablesOrViewsGroup g opts) (forEachChild n) s else Inr s)
       (\<lambda>s. andThen (if ''Enums'' = nodeText (name n)
                      then forEach (enumsGroup g opts) (forEachChild n) s else Inr s)
       (\<lambda>s. andThen (if ''CompositeTypes'' = nodeText (name n)
                      then forEach (compositeTypesGroup g opts) (forEachChild n) s else Inr s)
       (\<lambda>s. if ''Functions'' = nodeText (name n)
             then forEach (functionsGroup g opts) (forEachChild n) s else Inr s))))\<close> for opts
    using True by (intro ext) (simp only: schemaMember_def if_True simp_thms)
  show ?thesis
    unfolding unfolded
    by (intro simulates_andThen simulates_if simulates_Inr groups)
next
  case False
  then have \<open>schemaMember g opts n = Inr\<close> for opts
    by (intro ext) (auto simp: schemaMember_def)
  then show ?thesis
    by (simp add: simulates_Inr)
qed

lemma sim_schemaType:
  assumes \<open>related R opts0 opts1\<close>
  shows \<open>simulates R (schemaType g opts0 n) (schemaType g opts1 n)\<close>
proof -
  have \<open>simulates R (forEach (schemaMember g opts0) cs) (forEach (schemaMember g opts1) cs)\<close>
    for cs
    by (rule simulates_forEach) (rule sim_schemaMember [OF assms])
  then show ?thesis
    by (simp add: simulates_def schemaType_def Let_def)
qed

lemma sim_processDatabase:
  assumes \<open>related R opts0 opts1\<close>
  shows \<open>simulates R (processDatabase g opts0 n) (processDatabase g opts1 n)\<close>
proof -
  have \<open>simulates R (forEach (schemaType g opts0) cs) (forEach (schemaType g opts1) cs)\<close>
    for cs
    by (rule simulates_forEach) (rule sim_schemaType [OF assms])
  moreover from assms have \<open>schema opts0 = schema opts1\<close>
    by (simp add: related_def)
  ultimately show ?thesis
    by (simp add: simulates_def processDatabase_def Let_def)
qed

lemma sim_topLevel:
  assumes \<open>related R opts0 opts1\<close>
  shows \<open>simulates R (topLevel g opts0 n) (topLevel g opts1 n)\<close>
proof -
  have db: \<open>simulates R (forEach (processDatabase g opts0) cs) (forEach (processDatabase g opts1) cs)\<close>
    for cs
    by (rule simulates_forEach) (rule sim_processDatabase [OF assms])
  from assms have json: \<open>simulates R (\<lambda>s. Inr (push str s)) (\<lambda>s. Inr (push str s))\<close> for str
    by (simp add: simulates_def related_def)
  have unfolded: \<open>topLevel g opts n =
     (\<lambda>s. andThen
       (if isTypeAliasDeclaration n \<and> isTypeLiteralNode (type n) \<and>
           name n = Identifier ''Database''
        then forEach (processDatabase g opts) (members (type n)) s
        else if isInterfaceDeclaration n \<and> name n = Identifier ''Database''
        then forEach (processDatabase g opts) (forEachChild n) s
        else Inr s)
       (\<lambda>s. if isTypeAliasDeclaration n \<and> name n = Identifier ''Json''
             then Inr (push (getText n) s) else Inr s))\<close> for opts
    by (intro ext) (simp only: topLevel_def)
  show ?thesis
    unfolding unfolded
    by (intro simulates_andThen simulates_if simulates_Inr db json)
qed

lemma sim_collect:
  assumes \<open>related R opts0 opts1\<close> and \<open>R initial initial\<close>
    and \<open>collect g opts1 sourceFile = Inr t1\<close>
  shows \<open>\<exists>t0. collect g opts0 sourceFile = Inr t0 \<and> R t0 t1\<close>
proof -
  have \<open>simulates R (forEach (topLevel g opts0) sourceFile) (forEach (topLevel g opts1) sourceFile)\<close>
    by (rule simulates_forEach) (rule sim_topLevel [OF assms(1)])
  from simulatesD [OF this assms(2)] assms(3) show ?thesis
    by (simp add: collect_def)
qed

section \<open>No \<open>Database\<close> declaration, or none with the schema\<close>

lemma processDatabase_other_schema:
  \<open>(isPropertySignature m \<longrightarrow> getNodeName m \<noteq> Some (schema opts)) \<Longrightarrow>
   processDatabase getNodeName opts m s = Inr s\<close>
  by (simp add: processDatabase_def)

lemma topLevel_databaseMembers:
  \<open>topLevel getNodeName opts n s =
     andThen (forEach (processDatabase getNodeName opts) (databaseMembers n) s)
       (\<lambda>s. if isJson n then Inr (push (getText n) s) else Inr s)\<close>
proof -
  have \<open>isInterfaceDeclaration n \<Longrightarrow> \<not> isTypeAliasDeclaration n\<close>
    by (cases n) simp_all
  then show ?thesis
    by (cases \<open>isInterfaceDeclaration n\<close>) (simp_all add: topLevel_def databaseMembers_def isJson_def)
qed

lemma collect_without_schema:
  assumes \<open>\<forall>n\<in>set sourceFile. \<forall>m\<in>set (databaseMembers n).
             isPropertySignature m \<longrightarrow> getNodeName m \<noteq> Some (schema opts)\<close>
  shows \<open>forEach (topLevel getNodeName opts) sourceFile s =
         Inr (s\<lparr>typeStrings := typeStrings s @ map getText (filter isJson sourceFile)\<rparr>)\<close>
  using assms
proof (induction sourceFile arbitrary: s)
  case Nil
  show ?case by simp
next
  case (Cons n ns)
  have \<open>forEach (processDatabase getNodeName opts) (databaseMembers n) s = Inr s\<close>
    by (rule forEach_skip) (use Cons.prems in \<open>simp add: processDatabase_other_schema\<close>)
  then have step: \<open>topLevel getNodeName opts n s =
      Inr (if isJson n then push (getText n) s else s)\<close>
    by (simp add: topLevel_databaseMembers)
  from Cons.prems have rest: \<open>\<forall>n\<in>set ns. \<forall>m\<in>set (databaseMembers n).
             isPropertySignature m \<longrightarrow> getNodeName m \<noteq> Some (schema opts)\<close>
    by simp
  show ?case
    by (simp add: step Cons.IH [OF rest] push_def)
qed

text \<open>
  Claim C2, as amended. When no top-level \<open>Database\<close> declaration has a member named by
  the configured schema (in particular when there is no such declaration), no error is
  raised and the result is the text of the top-level type aliases named \<open>Json\<close> that
  pass the filter, joined; it is the empty string when there is no such alias.
\<close>

theorem without_schema_only_json_is_returned:
  assumes \<open>\<forall>n\<in>set (createSourceFile (sourceText opts)). \<forall>m\<in>set (databaseMembers n).
             isPropertySignature m \<longrightarrow> getNodeName m \<noteq> Some (schema opts)\<close>
  shows \<open>transformTypesImpl createSourceFile getNodeName opts =
         Inr (joinTypes (map getText (filter isJson (createSourceFile (sourceText opts)))))\<close>
  by (simp add: transformTypesImpl_def collect_def collect_without_schema [OF assms]
      assemble_def rewriteNames_def initial_def)

theorem without_schema_only_json_is_returned_witness:
  \<open>transformTypesImpl (\<lambda>src. jsonOnlyExample) getNodeNameSpec defaultOptions =
     Inr ''export type Json = string | number''\<close>
proof -
  have h: \<open>\<forall>n\<in>set ((\<lambda>src. jsonOnlyExample) (sourceText defaultOptions)).
      \<forall>m\<in>set (databaseMembers n).
        isPropertySignature m \<longrightarrow> getNodeNameSpec m \<noteq> Some (schema defaultOptions)\<close>
    by (simp add: jsonOnlyExample_def jsonAlias_def databaseMembers_def)
  have \<open>joinTypes (map getText (filter isJson jsonOnlyExample)) =
      ''export type Json = string | number''\<close>
    by code_simp
  with without_schema_only_json_is_returned [OF h] show ?thesis by simp
qed

text \<open>
  The claim as stated fails: a source file that holds nothing but a \<open>Json\<close> alias has
  no \<open>Database\<close> declaration, and the result is the text of the alias, not the empty
  string.
\<close>

theorem without_database_json_is_still_returned:
  \<open>databaseMembers (hd jsonOnlyExample) = [] \<and> tl jsonOnlyExample = [] \<and>
   transformTypesImpl (\<lambda>src. jsonOnlyExample) getNodeNameSpec defaultOptions =
     Inr ''export type Json = string | number'' \<and>
   ''export type Json = string | number'' \<noteq> []\<close>
  by code_simp

section \<open>A \<open>Database\<close> alias and a \<open>Database\<close> interface\<close>

lemma forEach_filter:
  assumes \<open>\<And>x s. \<not> P x \<Longrightarrow> f x s = Inr s\<close>
  shows \<open>forEach f (filter P xs) s = forEach f xs s\<close>
proof (induction xs arbitrary: s)
  case Nil
  show ?case by simp
next
  case (Cons x xs)
  have \<open>forEach f (filter P xs) = forEach f xs\<close>
    by (rule ext) (rule Cons.IH)
  then show ?case
    by (simp add: assms)
qed

lemma forEach_cong_middle:
  \<open>f x = f y \<Longrightarrow> forEach f (pre @ x # post) s = forEach f (pre @ y # post) s\<close>
proof (induction pre arbitrary: s)
  case Nil
  then show ?case by simp
next
  case (Cons a pre)
  then have \<open>forEach f (pre @ x # post) = forEach f (pre @ y # post)\<close>
    by (intro ext) simp
  then show ?case by simp
qed

lemma processDatabase_other_kind:
  \<open>\<not> isPropertySignature m \<Longrightarrow> processDatabase getNodeName opts m s = Inr s\<close>
  by (simp add: processDatabase_def)

text \<open>
  Claim C7. At the same place of a source file, a type alias \<open>Database\<close> whose type is
  a type literal and an interface \<open>Database\<close> with the same property signatures among
  its children (the other children of an interface are its name, modifiers, type
  parameters and heritage clauses) give the same result, an error included.
\<close>

theorem alias_and_interface_database_agree:
  assumes \<open>isTypeLiteralNode ty\<close>
    and \<open>filter isPropertySignature cs = filter isPropertySignature (members ty)\<close>
  shows \<open>transformTypesImpl
           (\<lambda>src. pre @ [TypeAliasDeclaration (Identifier ''Database'') ty aliasText] @ post)
           getNodeName opts =
         transformTypesImpl
           (\<lambda>src. pre @ [InterfaceDeclaration (Identifier ''Database'') cs interfaceText] @ post)
           getNodeName opts\<close>
proof -
  have \<open>forEach (processDatabase getNodeName opts) cs s =
        forEach (processDatabase getNodeName opts) (members ty) s\<close> for s
    using forEach_filter [of isPropertySignature \<open>processDatabase getNodeName opts\<close> cs s]
      forEach_filter [of isPropertySignature \<open>processDatabase getNodeName opts\<close> \<open>members ty\<close> s]
    by (simp add: processDatabase_other_kind assms(2))
  then have \<open>topLevel getNodeName opts (TypeAliasDeclaration (Identifier ''Database'') ty aliasText) =
      topLevel getNodeName opts (InterfaceDeclaration (Identifier ''Database'') cs interfaceText)\<close>
    using assms(1) by (intro ext) (simp add: topLevel_def)
  from forEach_cong_middle [of \<open>topLevel getNodeName opts\<close>, OF this, of pre post initial]
  show ?thesis
    by (simp add: transformTypesImpl_def collect_def)
qed

theorem alias_and_interface_database_agree_witness:
  \<open>isTypeLiteralNode (type (database moodGroups)) \<and>
   filter isPropertySignature (forEachChild (interfaceDatabase moodGroups)) =
     filter isPropertySignature (members (type (database moodGroups))) \<and>
   transformTypesImpl (\<lambda>src. [database moodGroups]) getNodeNameSpec defaultOptions =
   transformTypesImpl (\<lambda>src. [interfaceDatabase moodGroups]) getNodeNameSpec defaultOptions \<and>
   transformTypesImpl (\<lambda>src. [interfaceDatabase moodGroups]) getNodeNameSpec defaultOptions =
     Inr (''export type usersRow = { mood: mood; }'' @ [CHR '';'', CHR 0x0A] @
          ''export type mood = "happy" | "sad"'')\<close>
proof -
  define ty where \<open>ty = typeLiteral [property ''public'' (typeLiteral moodGroups)]\<close>
  have asAlias: \<open>database moodGroups =
      TypeAliasDeclaration (Identifier ''Database'') ty (''type Database = '' @ getText ty)\<close>
    by (simp add: database_def ty_def Let_def)
  have asInterface: \<open>interfaceDatabase moodGroups =
      InterfaceDeclaration (Identifier ''Database'') (Identifier ''Database'' # members ty)
        (''interface Database '' @ getText ty)\<close>
    by (simp add: interfaceDatabase_def ty_def Let_def)
  have h1: \<open>isTypeLiteralNode ty\<close>
    by (simp add: ty_def typeLiteral_def)
  have h2: \<open>filter isPropertySignature (Identifier ''Database'' # members ty) =
     filter isPropertySignature (members ty)\<close>
    by simp
  have e: \<open>transformTypesImpl (\<lambda>src. [interfaceDatabase moodGroups]) getNodeNameSpec defaultOptions =
     Inr (''export type usersRow = { mood: mood; }'' @ [CHR '';'', CHR 0x0A] @
          ''export type mood = "happy" | "sad"'')\<close>
    by code_simp
  from alias_and_interface_database_agree [OF h1 h2, where pre = \<open>[]\<close> and post = \<open>[]\<close>
      and getNodeName = getNodeNameSpec and opts = defaultOptions
      and aliasText = \<open>''type Database = '' @ getText ty\<close>
      and interfaceText = \<open>''interface Database '' @ getText ty\<close>]
  have \<open>transformTypesImpl (\<lambda>src. [database moodGroups]) getNodeNameSpec defaultOptions =
        transformTypesImpl (\<lambda>src. [interfaceDatabase moodGroups]) getNodeNameSpec defaultOptions\<close>
    by (simp add: asAlias asInterface)
  with h1 h2 e show ?thesis
    by (simp add: asAlias asInterface)
qed

section \<open>The validation of the argument\<close>

lemma zString_Inr: \<open>zString v = Inr x \<Longrightarrow> isJsString v\<close>
  by (cases v) (simp_all add: zString_def)

lemma zDefault_zString_Inr:
  \<open>zDefault d zString v = Inr x \<Longrightarrow> isUndefined v \<or> isJsString v\<close>
  by (cases v) (simp_all add: zDefault_def zString_def)

lemma zDefault_zBoolean_Inr:
  \<open>zDefault d zBoolean v = Inr x \<Longrightarrow> isUndefined v \<or> isJsBoolean v\<close>
  by (cases v) (simp_all add: zDefault_def zBoolean_def)

lemma zDefault_zFunction1_Inr:
  \<open>zDefault d zFunction1 v = Inr x \<Longrightarrow> isUndefined v \<or> isJsFunction v\<close>
  by (cases v) (simp_all add: zDefault_def zFunction1_def)

lemma zDefault_zFunction2_Inr:
  \<open>zDefault d zFunction2 v = Inr x \<Longrightarrow> isUndefined v \<or> isJsFunction v\<close>
  by (cases v) (simp_all add: zDefault_def zFunction2_def)

lemma transformTypesOptionsSchema_Inr:
  assumes \<open>transformTypesOptionsSchema input = Inr opts\<close>
  shows \<open>\<not> invalidShape input\<close>
proof -
  from assms obtain v1 v2 v3 v4 v5 v6 v7 v8 v9 v10 where
    \<open>zString (input ''sourceText'') = Inr v1\<close>
    \<open>zDefault (JsString ''public'') zString (input ''schema'') = Inr v2\<close>
    \<open>zDefault defaultFormatter1 zFunction1 (input ''enumFormatter'') = Inr v3\<close>
    \<open>zDefault defaultFormatter1 zFunction1 (input ''compositeTypeFormatter'') = Inr v4\<close>
    \<open>zDefault defaultFormatter2 zFunction2 (input ''functionFormatter'') = Inr v5\<close>
    \<open>zDefault defaultFormatter2 zFunction2 (input ''tableOrViewFormatter'') = Inr v6\<close>
    \<open>zDefault (JsBoolean False) zBoolean (input ''relationships'') = Inr v7\<close>
    \<open>zDefault (JsBoolean False) zBoolean (input ''updates'') = Inr v8\<close>
    \<open>zDefault (JsBoolean False) zBoolean (input ''inserts'') = Inr v9\<close>
    \<open>zDefault (JsBoolean False) zBoolean (input ''deletes'') = Inr v10\<close>
    unfolding transformTypesOptionsSchema_def andThen_eq_Inr by blast
  then have \<open>isJsString (input ''sourceText'')\<close>
    \<open>isUndefined (input ''schema'') \<or> isJsString (input ''schema'')\<close>
    \<open>isUndefined (input ''enumFormatter'') \<or> isJsFunction (input ''enumFormatter'')\<close>
    \<open>isUndefined (input ''compositeTypeFormatter'') \<or>
     isJsFunction (input ''compositeTypeFormatter'')\<close>
    \<open>isUndefined (input ''functionFormatter'') \<or> isJsFunction (input ''functionFormatter'')\<close>
    \<open>isUndefined (input ''tableOrViewFormatter'') \<or>
     isJsFunction (input ''tableOrViewFormatter'')\<close>
    \<open>isUndefined (input ''relationships'') \<or> isJsBoolean (input ''relationships'')\<close>
    \<open>isUndefined (input ''updates'') \<or> isJsBoolean (input ''updates'')\<close>
    \<open>isUndefined (input ''inserts'') \<or> isJsBoolean (input ''inserts'')\<close>
    \<open>isUndefined (input ''deletes'') \<or> isJsBoolean (input ''deletes'')\<close>
    by (blast dest: zString_Inr zDefault_zString_Inr zDefault_zBoolean_Inr
        zDefault_zFunction1_Inr zDefault_zFunction2_Inr)+
  then show ?thesis
    by (simp add: invalidShape_def)
qed

lemma defaults_of_the_schema:
  \<open>transformTypesOptionsSchema (\<lambda>key. if key = ''sourceText'' then JsString [] else Undefined) =
     Inr defaultOptions\<close>
  by (simp add: transformTypesOptionsSchema_def zString_def zBoolean_def zFunction1_def
      zFunction2_def zDefault_def defaultFormatter1_def defaultFormatter2_def defaultOptions_def)

text \<open>
  Claim C3, as amended. When \<open>sourceText\<close> is not a string, or \<open>schema\<close> is neither a
  string nor absent, or a formatter is neither a function nor absent, or a gating flag
  is neither a boolean nor absent, the call fails with the validation error, whatever
  the parser would do with the source text: the implementation, and with it the parser,
  is not reached. The number of parameters of a formatter is not checked.
\<close>

theorem ill_typed_options_fail_before_parsing:
  assumes \<open>invalidShape input\<close>
  shows \<open>transformTypes createSourceFile getNodeName input = Inl ZodError\<close>
proof (cases \<open>transformTypesOptionsSchema input\<close>)
  case (Inl e)
  then show ?thesis
    by (cases e) (simp add: transformTypes_def)
next
  case (Inr opts)
  with assms transformTypesOptionsSchema_Inr show ?thesis
    by blast
qed

theorem ill_typed_options_fail_before_parsing_witness:
  \<open>transformTypes (\<lambda>src. moodEnumOnly) getNodeNameSpec numberFlagInput = Inl ZodError\<close>
proof -
  have \<open>invalidShape numberFlagInput\<close>
    by (simp add: invalidShape_def numberFlagInput_def)
  then show ?thesis
    by (rule ill_typed_options_fail_before_parsing)
qed

text \<open>
  The claim as stated fails for a formatter of the wrong arity: given the two-parameter
  function \<open>(name, type) => `${name}${type}`\<close> as \<open>enumFormatter\<close>, the call does not
  fail; the formatter is called with one argument and the enum is named
  \<open>moodundefined\<close>.
\<close>

theorem formatter_of_wrong_arity_is_accepted:
  \<open>transformTypes (\<lambda>src. moodEnumOnly) getNodeNameSpec wrongArityInput =
     Inr ''export type moodundefined = "happy" | "sad"''\<close>
  by code_simp

section \<open>The filter on records with a numeric key\<close>

lemma sublist_across_separator:
  assumes \<open>sublist p (a @ sep @ b)\<close> and \<open>p \<noteq> []\<close> and \<open>sep \<noteq> []\<close>
    and \<open>set p \<inter> set sep = {}\<close>
  shows \<open>sublist p a \<or> sublist p b\<close>
proof -
  have no_sep: \<open>q = []\<close> if \<open>set q \<subseteq> set sep\<close> and \<open>set q \<subseteq> set p\<close> for q
    using that assms(4) by (cases q) auto
  from assms(1) consider \<open>sublist p a\<close> | \<open>sublist p (sep @ b)\<close>
    | p1 p2 where \<open>p = p1 @ p2\<close> \<open>suffix p1 a\<close> \<open>prefix p2 (sep @ b)\<close>
    by (auto simp: sublist_append [of p a])
  then show ?thesis
  proof cases
    case 1
    then show ?thesis ..
  next
    case 2
    then consider \<open>sublist p sep\<close> | \<open>sublist p b\<close>
      | q1 q2 where \<open>p = q1 @ q2\<close> \<open>suffix q1 sep\<close> \<open>prefix q2 b\<close>
      by (auto simp: sublist_append [of p sep])
    then show ?thesis
    proof cases
      case 1
      then have \<open>set p \<subseteq> set sep\<close> by (rule set_mono_sublist)
      with no_sep [of p] assms(2) show ?thesis by simp
    next
      case 2
      then show ?thesis ..
    next
      case 3
      from 3(2) have \<open>set q1 \<subseteq> set sep\<close> by (rule set_mono_suffix)
      moreover from 3(1) have \<open>set q1 \<subseteq> set p\<close> by auto
      ultimately have \<open>q1 = []\<close> by (rule no_sep)
      with 3 show ?thesis by auto
    qed
  next
    case 3
    show ?thesis
    proof (cases p2)
      case Nil
      with 3 show ?thesis by auto
    next
      case (Cons c cs)
      with 3(3) assms(3) have \<open>c = hd sep\<close>
        by (cases sep) (auto simp: prefix_def)
      with assms(3) have \<open>c \<in> set sep\<close> by simp
      moreover from Cons 3(1) have \<open>c \<in> set p\<close> by simp
      ultimately show ?thesis using assms(4) by auto
    qed
  qed
qed

lemma sublist_join:
  assumes \<open>p \<noteq> []\<close> and \<open>sep \<noteq> []\<close> and \<open>set p \<inter> set sep = {}\<close>
  shows \<open>sublist p (join sep xs) \<Longrightarrow> \<exists>x\<in>set xs. sublist p x\<close>
proof (induction xs)
  case Nil
  with assms(1) show ?case by simp
next
  case (Cons x xs)
  show ?case
  proof (cases xs)
    case Nil
    with Cons.prems show ?thesis by simp
  next
    case (Cons y ys)
    with Cons.prems have \<open>sublist p (x @ sep @ join sep xs)\<close> by simp
    from sublist_across_separator [OF this assms]
    show ?thesis
      using Cons.IH by auto
  qed
qed

lemma joinTypes_without_numeric_record:
  \<open>\<not> includes_str (joinTypes strs) ''Record<number''\<close>
proof
  assume \<open>includes_str (joinTypes strs) ''Record<number''\<close>
  then have \<open>sublist ''Record<number'' (join [CHR '';'', CHR 0x0A] (retained strs))\<close>
    by (simp add: includes_str_def joinTypes_def)
  then have \<open>\<exists>x\<in>set (retained strs). sublist ''Record<number'' x\<close>
    by (rule sublist_join [rotated -1]) simp_all
  then show False
    by (auto simp: retained_def includes_str_def)
qed

text \<open>
  Claim C4, as amended. The filter runs before the rewriting of the references: a
  collected declaration whose text contains \<open>Record<number\<close> before the rewriting is
  left out whole, so the joined text that the rewriting starts from never contains
  \<open>Record<number\<close>; the result is that text rewritten, and it is free of
  \<open>Record<number\<close> when no enum and no composite type was recorded.
\<close>

theorem numeric_record_declarations_are_dropped_before_rewriting:
  assumes \<open>transformTypesImpl createSourceFile getNodeName opts = Inr out\<close>
  shows \<open>\<exists>s. collect getNodeName opts (createSourceFile (sourceText opts)) = Inr s \<and>
             \<not> includes_str (joinTypes (typeStrings s)) ''Record<number'' \<and>
             out = rewriteNames (schema opts) ''CompositeTypes'' (compositeTypeNames s)
                     (rewriteNames (schema opts) ''Enums'' (enumNames s)
                        (joinTypes (typeStrings s))) \<and>
             (enumNames s = [] \<and> compositeTypeNames s = [] \<longrightarrow>
                \<not> includes_str out ''Record<number'')\<close>
  using assms joinTypes_without_numeric_record
  by (auto simp: transformTypesImpl_def andThen_eq_Inr assemble_def rewriteNames_def)

theorem numeric_record_declarations_are_dropped_before_rewriting_witness:
  \<open>\<exists>s. collect getNodeNameSpec (defaultOptions\<lparr>updates := True\<rparr>) numericRecordExample = Inr s \<and>
       \<not> includes_str (joinTypes (typeStrings s)) ''Record<number'' \<and>
       ''export type stockUpdate = { label: string; }'' =
         rewriteNames ''public'' ''CompositeTypes'' (compositeTypeNames s)
           (rewriteNames ''public'' ''Enums'' (enumNames s) (joinTypes (typeStrings s)))\<close>
proof -
  have \<open>transformTypesImpl (\<lambda>src. numericRecordExample) getNodeNameSpec
          (defaultOptions\<lparr>updates := True\<rparr>) =
        Inr ''export type stockUpdate = { label: string; }''\<close>
    by code_simp
  from numeric_record_declarations_are_dropped_before_rewriting [OF this]
  show ?thesis
    by (auto simp: defaultOptions_def)
qed

text \<open>
  The claim as stated fails: the row of \<open>stock\<close> has a record keyed by an enum named
  \<open>number_kind\<close>; its declaration passes the filter, the rewriting then turns the
  reference into \<open>Record<number_kind\<close>, and the declaration is emitted although it
  contains \<open>Record<number\<close> after the rewriting.
\<close>

theorem numeric_record_after_rewriting_is_emitted:
  \<open>transformTypesImpl (\<lambda>src. numericKeyExample) getNodeNameSpec defaultOptions =
     Inr (''export type stockRow = { counts: Record<number_kind, string>; }'' @
          [CHR '';'', CHR 0x0A] @ ''export type number_kind = "int" | "real"'') \<and>
   includes_str ''export type stockRow = { counts: Record<number_kind, string>; }''
     ''Record<number''\<close>
  by code_simp

section \<open>The rewriting of the references\<close>

lemma getSubstitution_plain:
  \<open>CHR ''$'' \<notin> set replaceValue \<Longrightarrow>
   getSubstitution matched preceding following replaceValue = replaceValue\<close>
  by (induction matched preceding following replaceValue rule: getSubstitution.induct) auto

lemma replaceAllFrom_absent:
  \<open>\<not> sublist searchString s \<Longrightarrow> replaceAllFrom searchString replaceValue preceding s = s\<close>
proof (induction s arbitrary: preceding)
  case Nil
  then show ?case by (subst replaceAllFrom.simps) simp
next
  case (Cons c cs)
  then have \<open>\<not> prefix searchString (c # cs)\<close> and \<open>\<not> sublist searchString cs\<close>
    by (auto simp: sublist_Cons_right)
  with Cons.IH [of \<open>preceding @ [c]\<close>] show ?case
    by (subst replaceAllFrom.simps) simp
qed

lemma prefix_long_append:
  assumes \<open>prefix p (u @ p @ v)\<close> and \<open>u \<noteq> []\<close>
  shows \<open>prefix p (u @ butlast p)\<close>
proof (cases p rule: rev_cases)
  case Nil
  then show ?thesis by simp
next
  case (snoc q c)
  from assms(1) obtain zs where \<open>u @ p @ v = p @ zs\<close>
    by (auto simp: prefix_def)
  then have \<open>take (length p) ((u @ q) @ c # v) = take (length p) (p @ zs)\<close>
    using snoc by simp
  moreover from assms(2) snoc have \<open>length p \<le> length (u @ q)\<close>
    by (cases u) auto
  ultimately have \<open>take (length p) (u @ q) = p\<close>
    by (simp del: append_assoc)
  then have \<open>prefix p (u @ q)\<close>
    by (metis take_is_prefix)
  with snoc show ?thesis by simp
qed

lemma replaceAllFrom_segment:
  assumes \<open>searchString \<noteq> []\<close> and \<open>\<not> sublist searchString (u @ butlast searchString)\<close>
  shows \<open>replaceAllFrom searchString replaceValue preceding (u @ searchString @ v) =
         u @ getSubstitution searchString (preceding @ u) v replaceValue @
         replaceAllFrom searchString replaceValue (preceding @ u @ searchString) v\<close>
  using assms(2)
proof (induction u arbitrary: preceding)
  case Nil
  with assms(1) show ?case
    by (subst replaceAllFrom.simps) simp
next
  case (Cons c u)
  have \<open>\<not> prefix searchString ((c # u) @ searchString @ v)\<close>
  proof
    assume \<open>prefix searchString ((c # u) @ searchString @ v)\<close>
    then have \<open>prefix searchString ((c # u) @ butlast searchString)\<close>
      by (rule prefix_long_append) simp
    with Cons.prems show False by auto
  qed
  moreover from Cons.prems have \<open>\<not> sublist searchString (u @ butlast searchString)\<close>
    by (auto simp: sublist_Cons_right)
  ultimately show ?case
    using Cons.IH [of \<open>preceding @ [c]\<close>] by (subst replaceAllFrom.simps) simp
qed

lemma not_sublist_shorter: \<open>\<not> sublist p (u @ butlast p) \<Longrightarrow> \<not> sublist p u\<close>
  by (auto simp: sublist_append)

lemma replaceAllFrom_join:
  assumes \<open>searchString \<noteq> []\<close> and \<open>CHR ''$'' \<notin> set replaceValue\<close>
    and \<open>\<forall>u\<in>set segments. \<not> sublist searchString (u @ butlast searchString)\<close>
  shows \<open>replaceAllFrom searchString replaceValue preceding (join searchString segments) =
         join replaceValue segments\<close>
  using assms(3)
proof (induction segments arbitrary: preceding)
  case Nil
  from assms(1) show ?case
    by (subst replaceAllFrom.simps) simp
next
  case (Cons u us)
  show ?case
  proof (cases us)
    case Nil
    with Cons.prems have \<open>\<not> sublist searchString u\<close>
      by (simp add: not_sublist_shorter)
    with Nil show ?thesis
      by (simp add: replaceAllFrom_absent)
  next
    case inner: (Cons w ws)
    from Cons.prems have \<open>\<not> sublist searchString (u @ butlast searchString)\<close>
      and rest: \<open>\<forall>u\<in>set us. \<not> sublist searchString (u @ butlast searchString)\<close>
      by simp_all
    from replaceAllFrom_segment [OF assms(1) this(1)]
    have \<open>replaceAllFrom searchString replaceValue preceding
            (u @ searchString @ join searchString us) =
          u @ replaceValue @ join replaceValue us\<close>
      by (simp add: getSubstitution_plain [OF assms(2)] Cons.IH [OF rest])
    with inner show ?thesis by simp
  qed
qed

lemma enumPath_not_empty: \<open>enumPath q schemaName category entry \<noteq> []\<close>
  by (simp add: enumPath_def)

lemma replaceAllFrom_Nil:
  \<open>searchString \<noteq> [] \<Longrightarrow> replaceAllFrom searchString replaceValue preceding [] = []\<close>
  by (subst replaceAllFrom.simps) simp

lemma replaceAllFrom_plain_preceding:
  assumes \<open>CHR ''$'' \<notin> set replaceValue\<close>
  shows \<open>replaceAllFrom searchString replaceValue preceding s =
         replaceAllFrom searchString replaceValue [] s\<close>
proof (induction s arbitrary: preceding rule: length_induct)
  case (1 s)
  note IH = 1 [rule_format]
  show ?case
  proof (cases \<open>prefix searchString s \<and> searchString \<noteq> []\<close>)
    case True
    then have shorter: \<open>length (drop (length searchString) s) < length s\<close>
      by (auto simp: prefix_def)
    from True have \<open>replaceAllFrom searchString replaceValue pre s =
        replaceValue @ replaceAllFrom searchString replaceValue (pre @ searchString)
          (drop (length searchString) s)\<close> for pre
      by (subst replaceAllFrom.simps) (simp add: getSubstitution_plain [OF assms])
    with IH [OF shorter, of \<open>preceding @ searchString\<close>] IH [OF shorter, of \<open>[] @ searchString\<close>]
    show ?thesis by simp
  next
    case False
    show ?thesis
    proof (cases s)
      case Nil
      with False show ?thesis
        by (subst (1 2) replaceAllFrom.simps) (auto simp: getSubstitution_plain [OF assms])
    next
      case (Cons c cs)
      with False have \<open>replaceAllFrom searchString replaceValue pre s =
          (if searchString = [] then replaceValue else []) @
          c # replaceAllFrom searchString replaceValue (pre @ [c]) cs\<close> for pre
        by (subst replaceAllFrom.simps) (auto simp: getSubstitution_plain [OF assms])
      with IH [of cs \<open>preceding @ [c]\<close>] IH [of cs \<open>[] @ [c]\<close>] Cons
      show ?thesis by simp
    qed
  qed
qed

lemma prefix_before_barrier:
  assumes \<open>prefix p (X @ c # Y)\<close> and \<open>c \<notin> set p\<close>
  shows \<open>prefix p X\<close>
proof -
  from assms(1) consider \<open>prefix p X\<close> | p' where \<open>p = X @ p'\<close> \<open>prefix p' (c # Y)\<close>
    by (auto simp: prefix_append)
  then show ?thesis
  proof cases
    case 1
    then show ?thesis .
  next
    case 2
    with assms(2) have \<open>p' = []\<close>
      by (cases p') auto
    with 2 show ?thesis by simp
  qed
qed

lemma replaceAllFrom_barrier:
  assumes \<open>CHR ''$'' \<notin> set replaceValue\<close> and \<open>searchString \<noteq> []\<close>
    and \<open>c \<notin> set searchString\<close>
  shows \<open>replaceAllFrom searchString replaceValue [] (X @ c # Y) =
         replaceAllFrom searchString replaceValue [] X @
         c # replaceAllFrom searchString replaceValue [] Y\<close>
proof (induction X rule: length_induct)
  case (1 X)
  note IH = 1 [rule_format]
  note plain = replaceAllFrom_plain_preceding [OF assms(1), of searchString]
  show ?case
  proof (cases \<open>prefix searchString (X @ c # Y)\<close>)
    case True
    then have \<open>prefix searchString X\<close>
      using assms(3) by (rule prefix_before_barrier)
    then obtain X2 where X: \<open>X = searchString @ X2\<close>
      by (auto simp: prefix_def)
    with assms(2) have shorter: \<open>length X2 < length X\<close>
      by simp
    have \<open>replaceAllFrom searchString replaceValue [] (X @ c # Y) =
        replaceValue @ replaceAllFrom searchString replaceValue [] (X2 @ c # Y)\<close>
      using True assms(2) X
      by (subst replaceAllFrom.simps) (simp add: getSubstitution_plain [OF assms(1)] plain [of \<open>searchString\<close>])
    moreover have \<open>replaceAllFrom searchString replaceValue [] X =
        replaceValue @ replaceAllFrom searchString replaceValue [] X2\<close>
      using assms(2) X
      by (subst replaceAllFrom.simps) (simp add: getSubstitution_plain [OF assms(1)] plain [of \<open>searchString\<close>])
    ultimately show ?thesis
      using IH [OF shorter] by simp
  next
    case False
    then have notX: \<open>\<not> prefix searchString X\<close>
      by (auto simp: prefix_def)
    show ?thesis
    proof (cases X)
      case Nil
      with False assms(2) show ?thesis
        by (subst replaceAllFrom.simps) (simp add: replaceAllFrom_Nil plain [of \<open>[c]\<close>])
    next
      case (Cons x X1)
      have \<open>replaceAllFrom searchString replaceValue [] (X @ c # Y) =
          x # replaceAllFrom searchString replaceValue [] (X1 @ c # Y)\<close>
        using False Cons
        by (subst replaceAllFrom.simps) (simp add: plain [of \<open>[x]\<close>])
      moreover have \<open>replaceAllFrom searchString replaceValue [] X =
          x # replaceAllFrom searchString replaceValue [] X1\<close>
        using notX Cons
        by (subst replaceAllFrom.simps) (simp add: plain [of \<open>[x]\<close>])
      ultimately show ?thesis
        using IH [of X1] Cons by simp
    qed
  qed
qed

lemma replaceAll_join:
  assumes \<open>CHR ''$'' \<notin> set replaceValue\<close> and \<open>searchString \<noteq> []\<close>
    and \<open>CHR '';'' \<notin> set searchString\<close> and \<open>CHR 0x0A \<notin> set searchString\<close>
  shows \<open>replaceAll (join [CHR '';'', CHR 0x0A] ds) searchString replaceValue =
         join [CHR '';'', CHR 0x0A] (map (\<lambda>d. replaceAll d searchString replaceValue) ds)\<close>
proof (induction ds)
  case Nil
  from assms(2) show ?case
    by (simp add: replaceAll_def replaceAllFrom_Nil)
next
  case (Cons d ds)
  show ?case
  proof (cases ds)
    case Nil
    then show ?thesis by simp
  next
    case inner: (Cons e es)
    let ?rest = \<open>join [CHR '';'', CHR 0x0A] ds\<close>
    have \<open>replaceAllFrom searchString replaceValue [] (d @ CHR '';'' # CHR 0x0A # ?rest) =
      replaceAllFrom searchString replaceValue [] d @ CHR '';'' #
      replaceAllFrom searchString replaceValue [] (CHR 0x0A # ?rest)\<close>
      by (rule replaceAllFrom_barrier [OF assms(1,2,3)])
    moreover have \<open>replaceAllFrom searchString replaceValue [] (CHR 0x0A # ?rest) =
      CHR 0x0A # replaceAllFrom searchString replaceValue [] ?rest\<close>
      using replaceAllFrom_barrier [OF assms(1,2,4), of \<open>[]\<close> ?rest]
      by (simp add: replaceAllFrom_Nil [OF assms(2)])
    ultimately show ?thesis
      using Cons.IH inner by (simp add: replaceAll_def)
  qed
qed

lemma enumPath_chars:
  \<open>set (enumPath q schemaName category entry) =
     set ''Database[]'' \<union> {q} \<union> set schemaName \<union> set category \<union> set entry\<close>
  by (auto simp: enumPath_def)


lemma enumPath_separable:
  assumes \<open>CHR '';'' \<notin> set schemaName\<close> \<open>CHR 0x0A \<notin> set schemaName\<close>
    and \<open>CHR '';'' \<notin> set entry\<close> \<open>CHR 0x0A \<notin> set entry\<close>
    and \<open>category = ''Enums'' \<or> category = ''CompositeTypes''\<close>
    and \<open>q = CHR ''"'' \<or> q = CHR 0x27\<close>
  shows \<open>CHR '';'' \<notin> set (enumPath q schemaName category entry) \<and>
         CHR 0x0A \<notin> set (enumPath q schemaName category entry)\<close>
  using assms by (auto simp: enumPath_chars)

lemma rewriteName_join:
  assumes \<open>CHR '';'' \<notin> set schemaName\<close> \<open>CHR 0x0A \<notin> set schemaName\<close>
    and \<open>CHR '';'' \<notin> set (fst entry)\<close> \<open>CHR 0x0A \<notin> set (fst entry)\<close>
    and \<open>CHR ''$'' \<notin> set (snd entry)\<close>
    and \<open>category = ''Enums'' \<or> category = ''CompositeTypes''\<close>
  shows \<open>rewriteName schemaName category (join [CHR '';'', CHR 0x0A] ds) entry =
         join [CHR '';'', CHR 0x0A] (map (\<lambda>d. rewriteName schemaName category d entry) ds)\<close>
proof -
  obtain entryName formattedName where entry: \<open>entry = (entryName, formattedName)\<close>
    by (cases entry)
  have \<open>CHR '';'' \<notin> set (enumPath q schemaName category entryName) \<and>
        CHR 0x0A \<notin> set (enumPath q schemaName category entryName)\<close>
    if \<open>q = CHR ''"'' \<or> q = CHR 0x27\<close> for q
    using assms(1-4,6) that unfolding entry fst_conv by (rule enumPath_separable)
  then show ?thesis
    using assms(5)
    by (simp add: entry rewriteName_def replaceAll_join enumPath_not_empty comp_def)
qed

lemma rewriteNames_join:
  assumes \<open>CHR '';'' \<notin> set schemaName\<close> \<open>CHR 0x0A \<notin> set schemaName\<close>
    and \<open>\<forall>entry\<in>set entries. CHR '';'' \<notin> set (fst entry) \<and> CHR 0x0A \<notin> set (fst entry) \<and>
           CHR ''$'' \<notin> set (snd entry)\<close>
    and \<open>category = ''Enums'' \<or> category = ''CompositeTypes''\<close>
  shows \<open>rewriteNames schemaName category entries (join [CHR '';'', CHR 0x0A] ds) =
         join [CHR '';'', CHR 0x0A] (map (rewriteNames schemaName category entries) ds)\<close>
  using assms(3)
proof (induction entries arbitrary: ds)
  case Nil
  show ?case by (simp add: rewriteNames_def)
next
  case (Cons entry entries)
  from Cons.prems have
    \<open>rewriteName schemaName category (join [CHR '';'', CHR 0x0A] ds) entry =
     join [CHR '';'', CHR 0x0A] (map (\<lambda>d. rewriteName schemaName category d entry) ds)\<close>
    by (intro rewriteName_join assms(1,2,4)) simp_all
  moreover from Cons.prems have
    \<open>rewriteNames schemaName category entries
       (join [CHR '';'', CHR 0x0A] (map (\<lambda>d. rewriteName schemaName category d entry) ds)) =
     join [CHR '';'', CHR 0x0A]
       (map (rewriteNames schemaName category entries)
          (map (\<lambda>d. rewriteName schemaName category d entry) ds))\<close>
    by (intro Cons.IH) simp
  ultimately show ?case
    by (simp add: rewriteNames_def comp_def)
qed

lemma assemble_join:
  assumes \<open>rewritable opts s\<close>
  shows \<open>assemble opts s =
         join [CHR '';'', CHR 0x0A] (map (rewriteDeclaration opts s) (retained (typeStrings s)))\<close>
proof -
  from assms have
    \<open>rewriteNames (schema opts) ''Enums'' (enumNames s)
       (join [CHR '';'', CHR 0x0A] (retained (typeStrings s))) =
     join [CHR '';'', CHR 0x0A]
       (map (rewriteNames (schema opts) ''Enums'' (enumNames s)) (retained (typeStrings s)))\<close>
    by (intro rewriteNames_join) (auto simp: rewritable_def)
  moreover from assms have
    \<open>rewriteNames (schema opts) ''CompositeTypes'' (compositeTypeNames s)
       (join [CHR '';'', CHR 0x0A] ds) =
     join [CHR '';'', CHR 0x0A]
       (map (rewriteNames (schema opts) ''CompositeTypes'' (compositeTypeNames s)) ds)\<close> for ds
    by (intro rewriteNames_join) (auto simp: rewritable_def)
  moreover have \<open>rewriteDeclaration opts s =
      (\<lambda>d. rewriteNames (schema opts) ''CompositeTypes'' (compositeTypeNames s)
             (rewriteNames (schema opts) ''Enums'' (enumNames s) d))\<close>
    by (intro ext) (simp add: rewriteDeclaration_def)
  ultimately show ?thesis
    by (simp add: assemble_def joinTypes_def comp_def)
qed

lemma rewriteNames_absent:
  assumes \<open>\<forall>entry\<in>set entries. \<not> refersTo schemaName category d (fst entry)\<close>
  shows \<open>rewriteNames schemaName category entries d = d\<close>
  using assms
proof (induction entries)
  case Nil
  show ?case by (simp add: rewriteNames_def)
next
  case (Cons entry entries)
  then have \<open>rewriteName schemaName category d entry = d\<close>
    by (cases entry)
       (simp add: rewriteName_def replaceAll_def replaceAllFrom_absent includes_str_def
          refersTo_def)
  with Cons show ?case
    by (simp add: rewriteNames_def)
qed

lemma replaceAll_listed:
  assumes \<open>CHR ''$'' \<notin> set formattedName\<close> and \<open>path \<noteq> []\<close> and \<open>listed path segments\<close>
  shows \<open>replaceAll (join path segments) path formattedName = join formattedName segments\<close>
  using assms unfolding replaceAll_def includes_str_def listed_def
  by (intro replaceAllFrom_join)

lemma rewriteName_listed:
  assumes \<open>CHR ''$'' \<notin> set formattedName\<close>
    and \<open>listed (enumPath (CHR ''"'') schemaName category entryName) segments\<close>
    and \<open>join formattedName segments =
         join (enumPath (CHR 0x27) schemaName category entryName) others\<close>
    and \<open>listed (enumPath (CHR 0x27) schemaName category entryName) others\<close>
  shows \<open>rewriteName schemaName category
           (join (enumPath (CHR ''"'') schemaName category entryName) segments)
           (entryName, formattedName) =
         join formattedName others\<close>
  using assms by (simp add: rewriteName_def replaceAll_listed enumPath_not_empty)

lemma replaceEach_append:
  \<open>replaceEach t (xs @ ys) = replaceEach (replaceEach t xs) ys\<close>
  by (simp add: replaceEach_def)

lemma rewriteNames_replaceEach:
  \<open>rewriteNames schemaName category entries t =
   replaceEach t (concat (map (spellings schemaName category) entries))\<close>
proof (induction entries arbitrary: t)
  case Nil
  show ?case by (simp add: rewriteNames_def replaceEach_def)
next
  case (Cons entry entries)
  have \<open>rewriteName schemaName category t entry =
        replaceEach t (spellings schemaName category entry)\<close>
    by (cases entry) (simp add: rewriteName_def replaceEach_def spellings_def)
  with Cons.IH [of \<open>rewriteName schemaName category t entry\<close>] show ?case
    by (simp add: rewriteNames_def replaceEach_append)
qed

lemma assemble_replaceEach:
  \<open>assemble opts s = replaceEach (joinTypes (typeStrings s)) (replacements opts s)\<close>
  by (simp add: assemble_def replacements_def rewriteNames_replaceEach replaceEach_append)

lemma rewriteDeclaration_replaceEach:
  \<open>rewriteDeclaration opts s d = replaceEach d (replacements opts s)\<close>
  by (simp add: rewriteDeclaration_def replacements_def rewriteNames_replaceEach
        replaceEach_append)

text \<open>
  Claim C1, as amended. The returned text is the joined text of the declarations that
  passed the filter after the replacements of the recorded entries, applied one after
  the other in the order of recording: for each recorded enum, then for each recorded
  composite type, first the double-quoted and then the single-quoted spelling of its
  path is replaced by the formatted name. When the schema and the recorded names
  contain neither \<open>;\<close> nor a line feed and the formatted names no \<open>$\<close>, the result is
  the join of the declarations, each of them gone through that same sequence of
  replacements: the rewriting reaches every declaration, not only the one that
  declares the target. For a formatted name without \<open>$\<close>, the two replacements of an
  entry turn a text in which the double-quoted path occurs at the places shown and
  nowhere else, \<open>u0 path u1 ... path uk\<close>, and in which, once these are replaced, the
  single-quoted path occurs at the places shown and nowhere else,
  \<open>v0 path' v1 ... path' vm\<close>, into \<open>v0 name v1 ... name vm\<close>: every such occurrence
  of either spelling is replaced. Nothing is said about a path that a replacement puts
  together anew.
\<close>

theorem both_spellings_are_replaced_in_every_declaration:
  \<open>assemble opts s = replaceEach (joinTypes (typeStrings s)) (replacements opts s) \<and>
   (rewritable opts s \<longrightarrow>
      assemble opts s =
        join [CHR '';'', CHR 0x0A]
          (map (\<lambda>declaration. replaceEach declaration (replacements opts s))
             (retained (typeStrings s)))) \<and>
   (CHR ''$'' \<notin> set formattedName \<and>
    listed (enumPath (CHR ''"'') schemaName category entryName) segments \<and>
    join formattedName segments =
      join (enumPath (CHR 0x27) schemaName category entryName) others \<and>
    listed (enumPath (CHR 0x27) schemaName category entryName) others \<longrightarrow>
      rewriteName schemaName category
        (join (enumPath (CHR ''"'') schemaName category entryName) segments)
        (entryName, formattedName) =
      join formattedName others)\<close>
proof -
  have \<open>rewriteDeclaration opts s = (\<lambda>declaration. replaceEach declaration (replacements opts s))\<close>
    by (intro ext) (rule rewriteDeclaration_replaceEach)
  with assemble_join [of opts s] assemble_replaceEach [of opts s] rewriteName_listed
  show ?thesis by metis
qed

theorem both_spellings_are_replaced_in_every_declaration_witness:
  \<open>assemble defaultOptions
     \<lparr>typeStrings =
        [''export type usersRow = { mood: Database["public"]["Enums"]["mood"]; old: '' @
           enumPath (CHR 0x27) ''public'' ''Enums'' ''mood'' @
           ''; size: Database["public"]["CompositeTypes"]["size"]; }'',
         ''export type Mood = "happy" | "sad"'',
         ''export type Size = { w: number; }''],
      enumNames = [(''mood'', ''Mood'')], compositeTypeNames = [(''size'', ''Size'')]\<rparr> =
   join [CHR '';'', CHR 0x0A]
     [''export type usersRow = { mood: Mood; old: Mood; size: Size; }'',
      ''export type Mood = "happy" | "sad"'',
      ''export type Size = { w: number; }''] \<and>
   rewriteName ''public'' ''Enums''
     (join (enumPath (CHR ''"'') ''public'' ''Enums'' ''mood'')
        [''export type usersRow = { mood: '',
         ''; old: '' @ enumPath (CHR 0x27) ''public'' ''Enums'' ''mood'' @ ''; }''])
     (''mood'', ''Mood'') =
   ''export type usersRow = { mood: Mood; old: Mood; }''\<close>
proof -
  let ?s = \<open>\<lparr>typeStrings =
        [''export type usersRow = { mood: Database["public"]["Enums"]["mood"]; old: '' @
           enumPath (CHR 0x27) ''public'' ''Enums'' ''mood'' @
           ''; size: Database["public"]["CompositeTypes"]["size"]; }'',
         ''export type Mood = "happy" | "sad"'',
         ''export type Size = { w: number; }''],
      enumNames = [(''mood'', ''Mood'')], compositeTypeNames = [(''size'', ''Size'')]\<rparr>\<close>
  let ?segments = \<open>[''export type usersRow = { mood: '',
         ''; old: '' @ enumPath (CHR 0x27) ''public'' ''Enums'' ''mood'' @ ''; }'']\<close>
  let ?others = \<open>[''export type usersRow = { mood: Mood; old: '', ''; }'']\<close>
  have h0: \<open>rewritable defaultOptions ?s\<close>
    by (simp add: rewritable_def defaultOptions_def)
  have h1: \<open>CHR ''$'' \<notin> set ''Mood''\<close>
    by simp
  have h2: \<open>listed (enumPath (CHR ''"'') ''public'' ''Enums'' ''mood'') ?segments\<close>
    by code_simp
  have h3: \<open>join ''Mood'' ?segments =
      join (enumPath (CHR 0x27) ''public'' ''Enums'' ''mood'') ?others\<close>
    by code_simp
  have h4: \<open>listed (enumPath (CHR 0x27) ''public'' ''Enums'' ''mood'') ?others\<close>
    by code_simp
  have e1: \<open>map (\<lambda>declaration. replaceEach declaration (replacements defaultOptions ?s))
        (retained (typeStrings ?s)) =
      [''export type usersRow = { mood: Mood; old: Mood; size: Size; }'',
       ''export type Mood = "happy" | "sad"'',
       ''export type Size = { w: number; }'']\<close>
    by code_simp
  have e2: \<open>join ''Mood'' ?others = ''export type usersRow = { mood: Mood; old: Mood; }''\<close>
    by simp
  from both_spellings_are_replaced_in_every_declaration
         [of defaultOptions ?s \<open>''Mood''\<close> \<open>''public''\<close> \<open>''Enums''\<close> \<open>''mood''\<close> ?segments ?others]
    h0 h1 h2 h3 h4
  have \<open>assemble defaultOptions ?s =
        join [CHR '';'', CHR 0x0A]
          (map (\<lambda>declaration. replaceEach declaration (replacements defaultOptions ?s))
             (retained (typeStrings ?s)))\<close>
    and \<open>rewriteName ''public'' ''Enums''
     (join (enumPath (CHR ''"'') ''public'' ''Enums'' ''mood'') ?segments)
     (''mood'', ''Mood'') = join ''Mood'' ?others\<close>
    by blast+
  then show ?thesis
    unfolding e1 e2 by (intro conjI)
qed

text \<open>
  The claim as stated fails: the row of \<open>notes\<close> has a string literal type in which
  the path of the enum \<open>mood\<close> stands inside the beginning and the end of the same
  path. The replacement puts \<open>mood\<close> in place of the inner path, and the text around
  it makes up the path again, which is in the result.
\<close>

theorem nested_path_survives_the_rewriting:
  \<open>transformTypesImpl (\<lambda>src. nestedPathExample) getNodeNameSpec defaultOptions =
     Inr (''export type notesRow = { hint: '' @ [CHR 0x27] @
          ''Database["public"]["Enums"]["mood"]'' @ [CHR 0x27] @ ''; }'' @
          [CHR '';'', CHR 0x0A] @ ''export type mood = "happy" | "sad"'') \<and>
   includes_str
     (''export type notesRow = { hint: '' @ [CHR 0x27] @
      ''Database["public"]["Enums"]["mood"]'' @ [CHR 0x27] @ ''; }'' @
      [CHR '';'', CHR 0x0A] @ ''export type mood = "happy" | "sad"'')
     (enumPath (CHR ''"'') ''public'' ''Enums'' ''mood'')\<close>
proof -
  have run: \<open>transformTypesImpl (\<lambda>src. nestedPathExample) getNodeNameSpec defaultOptions =
     Inr (''export type notesRow = { hint: '' @ [CHR 0x27] @
          ''Database["public"]["Enums"]["mood"]'' @ [CHR 0x27] @ ''; }'' @
          [CHR '';'', CHR 0x0A] @ ''export type mood = "happy" | "sad"'')\<close>
    by code_simp
  have path: \<open>enumPath (CHR ''"'') ''public'' ''Enums'' ''mood'' =
      ''Database["public"]["Enums"]["mood"]''\<close>
    by (simp add: enumPath_def)
  have survives:
    \<open>includes_str
     (''export type notesRow = { hint: '' @ [CHR 0x27] @
      ''Database["public"]["Enums"]["mood"]'' @ [CHR 0x27] @ ''; }'' @
      [CHR '';'', CHR 0x0A] @ ''export type mood = "happy" | "sad"'')
     (enumPath (CHR ''"'') ''public'' ''Enums'' ''mood'')\<close>
    unfolding path by code_simp
  from run survives show ?thesis
    by (intro conjI)
qed

section \<open>Invariants of the collected state\<close>

lemma related_invariant:
  assumes \<open>\<And>s str. I s \<Longrightarrow> I (push str s)\<close>
    and \<open>\<And>s str entryName formattedName.
           I s \<Longrightarrow> enumFormatter opts entryName = Inr formattedName \<Longrightarrow>
           I ((push str s)\<lparr>enumNames := enumNames s @ [(entryName, formattedName)]\<rparr>)\<close>
    and \<open>\<And>s str entryName formattedName.
           I s \<Longrightarrow> compositeTypeFormatter opts entryName = Inr formattedName \<Longrightarrow>
           I ((push str s)
                \<lparr>compositeTypeNames := compositeTypeNames s @ [(entryName, formattedName)]\<rparr>)\<close>
  shows \<open>related (\<lambda>s0 s1. s0 = s1 \<and> I s1) opts opts\<close>
  using assms by (simp add: related_def)

lemma forEach_topLevel_invariant:
  assumes \<open>related (\<lambda>s0 s1. s0 = s1 \<and> I s1) opts opts\<close>
    and \<open>forEach (topLevel getNodeName opts) ns s = Inr t\<close> and \<open>I s\<close>
  shows \<open>I t\<close>
proof -
  have \<open>simulates (\<lambda>s0 s1. s0 = s1 \<and> I s1)
          (forEach (topLevel getNodeName opts) ns) (forEach (topLevel getNodeName opts) ns)\<close>
    by (rule simulates_forEach) (rule sim_topLevel [OF assms(1)])
  from simulatesD [OF this _ assms(2), of s] assms(3) show ?thesis
    by simp
qed

lemma elem_sublist_join: \<open>x \<in> set xs \<Longrightarrow> sublist x (join sep xs)\<close>
proof (induction xs)
  case Nil
  then show ?case by simp
next
  case (Cons y ys)
  show ?case
  proof (cases ys)
    case Nil
    with Cons.prems show ?thesis by simp
  next
    case (Cons z zs)
    with Cons.prems Cons.IH have \<open>x = y \<or> sublist x (join sep ys)\<close>
      by auto
    then show ?thesis
    proof
      assume \<open>x = y\<close>
      with Cons show ?thesis by simp
    next
      assume \<open>sublist x (join sep ys)\<close>
      then have \<open>sublist x ((y @ sep) @ join sep ys)\<close>
        by (auto simp: sublist_append)
      with Cons show ?thesis by simp
    qed
  qed
qed

lemma topLevel_json:
  assumes \<open>isJson n\<close> and \<open>topLevel getNodeName opts n s = Inr t\<close>
  shows \<open>t = push (getText n) s\<close>
  using assms by (auto simp: topLevel_def isJson_def)

text \<open>
  Claim C5, as amended. The text of a top-level type alias named \<open>Json\<close> that does not
  contain \<open>Record<number\<close> is, whenever the extraction returns, one of the declarations
  that are joined, unrenamed, whatever the schema and whether or not there is a
  \<open>Database\<close> declaration. The rewriting of the references then runs over the joined
  text, this declaration included. The result contains the text as it is when no enum
  and no composite type was recorded, and also when the text contains no spelling of the
  path of a recorded entry, the schema and the recorded names contain neither \<open>;\<close> nor
  a line feed, and the formatted names contain no \<open>$\<close>.
\<close>

theorem json_alias_is_among_the_joined_declarations:
  assumes \<open>n \<in> set (createSourceFile (sourceText opts))\<close>
    and \<open>isTypeAliasDeclaration n\<close> and \<open>name n = Identifier ''Json''\<close>
    and \<open>\<not> includes_str (getText n) ''Record<number''\<close>
    and \<open>collect getNodeName opts (createSourceFile (sourceText opts)) = Inr s\<close>
  shows \<open>transformTypesImpl createSourceFile getNodeName opts = Inr (assemble opts s) \<and>
         getText n \<in> set (retained (typeStrings s)) \<and>
         includes_str (joinTypes (typeStrings s)) (getText n) \<and>
         (enumNames s = [] \<and> compositeTypeNames s = [] \<longrightarrow>
            includes_str (assemble opts s) (getText n)) \<and>
         (rewritable opts s \<and>
          (\<forall>entry\<in>set (enumNames s). \<not> refersTo (schema opts) ''Enums'' (getText n) (fst entry)) \<and>
          (\<forall>entry\<in>set (compositeTypeNames s).
             \<not> refersTo (schema opts) ''CompositeTypes'' (getText n) (fst entry)) \<longrightarrow>
            includes_str (assemble opts s) (getText n))\<close>
proof -
  from assms(5) have out: \<open>transformTypesImpl createSourceFile getNodeName opts = Inr (assemble opts s)\<close>
    by (simp add: transformTypesImpl_def)
  from assms(1) obtain pre post where split: \<open>createSourceFile (sourceText opts) = pre @ n # post\<close>
    by (auto dest: split_list)
  from assms(5) obtain s1 s2 where \<open>topLevel getNodeName opts n s1 = Inr s2\<close>
    and post: \<open>forEach (topLevel getNodeName opts) post s2 = Inr s\<close>
    by (auto simp: collect_def split forEach_append andThen_eq_Inr)
  with assms(2,3) have \<open>s2 = push (getText n) s1\<close>
    by (auto intro: topLevel_json simp: isJson_def)
  then have \<open>getText n \<in> set (typeStrings s2)\<close>
    by (simp add: push_def)
  moreover have \<open>related (\<lambda>s0 s1. s0 = s1 \<and> getText n \<in> set (typeStrings s1)) opts opts\<close>
    by (rule related_invariant) (simp_all add: push_def)
  ultimately have \<open>getText n \<in> set (typeStrings s)\<close>
    using post by (rule forEach_topLevel_invariant [rotated 2])
  with assms(4) have mem: \<open>getText n \<in> set (retained (typeStrings s))\<close>
    by (simp add: retained_def)
  then have joined: \<open>includes_str (joinTypes (typeStrings s)) (getText n)\<close>
    by (simp add: includes_str_def joinTypes_def elem_sublist_join)
  then have unrecorded: \<open>includes_str (assemble opts s) (getText n)\<close>
    if \<open>enumNames s = [] \<and> compositeTypeNames s = []\<close>
    using that by (simp add: assemble_def rewriteNames_def)
  have untouched: \<open>includes_str (assemble opts s) (getText n)\<close>
    if \<open>rewritable opts s\<close>
      and \<open>\<forall>entry\<in>set (enumNames s). \<not> refersTo (schema opts) ''Enums'' (getText n) (fst entry)\<close>
      and \<open>\<forall>entry\<in>set (compositeTypeNames s).
             \<not> refersTo (schema opts) ''CompositeTypes'' (getText n) (fst entry)\<close>
  proof -
    from that(2,3) have \<open>rewriteDeclaration opts s (getText n) = getText n\<close>
      by (simp add: rewriteDeclaration_def rewriteNames_absent)
    with mem have \<open>getText n \<in> set (map (rewriteDeclaration opts s) (retained (typeStrings s)))\<close>
      by force
    then show ?thesis
      by (simp add: assemble_join [OF that(1)] includes_str_def elem_sublist_join)
  qed
  from out mem joined unrecorded untouched show ?thesis
    by blast
qed

theorem json_alias_is_among_the_joined_declarations_witness:
  \<open>transformTypesImpl (\<lambda>src. [database moodGroups, jsonAlias]) getNodeNameSpec defaultOptions =
     Inr (assemble defaultOptions
       \<lparr>typeStrings =
          [''export type usersRow = { mood: Database["public"]["Enums"]["mood"]; }'',
           ''export type mood = "happy" | "sad"'',
           ''export type Json = string | number''],
        enumNames = [(''mood'', ''mood'')], compositeTypeNames = []\<rparr>) \<and>
   includes_str
     (assemble defaultOptions
       \<lparr>typeStrings =
          [''export type usersRow = { mood: Database["public"]["Enums"]["mood"]; }'',
           ''export type mood = "happy" | "sad"'',
           ''export type Json = string | number''],
        enumNames = [(''mood'', ''mood'')], compositeTypeNames = []\<rparr>)
     ''export type Json = string | number''\<close>
proof -
  let ?s = \<open>\<lparr>typeStrings =
          [''export type usersRow = { mood: Database["public"]["Enums"]["mood"]; }'',
           ''export type mood = "happy" | "sad"'',
           ''export type Json = string | number''],
        enumNames = [(''mood'', ''mood'')], compositeTypeNames = []\<rparr>\<close>
  have run: \<open>collect getNodeNameSpec defaultOptions
      ((\<lambda>src. [database moodGroups, jsonAlias]) (sourceText defaultOptions)) = Inr ?s\<close>
    by code_simp
  have h1: \<open>jsonAlias \<in> set ((\<lambda>src. [database moodGroups, jsonAlias]) (sourceText defaultOptions))\<close>
    by simp
  have h2: \<open>isTypeAliasDeclaration jsonAlias\<close> and h3: \<open>name jsonAlias = Identifier ''Json''\<close>
    by (simp_all add: jsonAlias_def)
  have h4: \<open>\<not> includes_str (getText jsonAlias) ''Record<number''\<close>
    by code_simp
  have h5: \<open>rewritable defaultOptions ?s\<close>
    by (simp add: rewritable_def defaultOptions_def)
  have h6: \<open>\<not> refersTo ''public'' ''Enums'' ''export type Json = string | number'' ''mood''\<close>
    by code_simp
  have shown: \<open>getText jsonAlias = ''export type Json = string | number''\<close>
    by (simp add: jsonAlias_def)
  from json_alias_is_among_the_joined_declarations [OF h1 h2 h3 h4 run] h5 h6
  show ?thesis
    by (simp add: shown defaultOptions_def)
qed

text \<open>
  The claim as stated fails: a \<open>Json\<close> alias whose text contains \<open>Record<number\<close> is
  removed by the filter like any other declaration, and nothing is returned.
\<close>

theorem json_alias_with_numeric_record_is_filtered:
  \<open>isJson numericJsonAlias \<and>
   getText numericJsonAlias = ''export type Json = string | Record<number, string>'' \<and>
   transformTypesImpl (\<lambda>src. [numericJsonAlias]) getNodeNameSpec defaultOptions = Inr []\<close>
  by code_simp

section \<open>The gating flags\<close>

lemma related_allFlagsOff:
  \<open>related (\<lambda>s0 s1. subseq (typeStrings s0) (typeStrings s1) \<and> enumNames s0 = enumNames s1 \<and>
               compositeTypeNames s0 = compositeTypeNames s1)
     (allFlagsOff opts) opts\<close>
proof -
  have \<open>skipped opts operation \<Longrightarrow> skipped (allFlagsOff opts) operation\<close> for operation
    by (auto simp: skipped_def allFlagsOff_def)
  moreover have \<open>subseq xs ys \<Longrightarrow> subseq xs (ys @ [str])\<close> for xs ys :: \<open>string list\<close> and str
    by (rule subseq_rev_drop_many)
  ultimately show ?thesis
    unfolding related_def by (simp add: allFlagsOff_def push_def)
qed

lemma pushEnum_allFlagsOff: \<open>pushEnum (allFlagsOff opts) = pushEnum opts\<close>
  by (intro ext) (simp add: pushEnum_def allFlagsOff_def split: option.splits)

lemma enumType_allFlagsOff: \<open>enumType (allFlagsOff opts) = enumType opts\<close>
  by (intro ext) (simp add: enumType_def pushEnum_allFlagsOff)

lemma enumEntry_allFlagsOff:
  \<open>enumEntry getNodeName (allFlagsOff opts) = enumEntry getNodeName opts\<close>
  by (intro ext) (simp add: enumEntry_def enumType_allFlagsOff)

lemma enumsGroup_allFlagsOff:
  \<open>enumsGroup getNodeName (allFlagsOff opts) = enumsGroup getNodeName opts\<close>
  by (intro ext) (simp add: enumsGroup_def enumEntry_allFlagsOff)

lemma compositeType_allFlagsOff: \<open>compositeType (allFlagsOff opts) = compositeType opts\<close>
  by (intro ext) (simp add: compositeType_def allFlagsOff_def split: option.splits)

lemma compositeEntry_allFlagsOff:
  \<open>compositeEntry getNodeName (allFlagsOff opts) = compositeEntry getNodeName opts\<close>
  by (intro ext) (simp add: compositeEntry_def compositeType_allFlagsOff)

lemma compositeTypesGroup_allFlagsOff:
  \<open>compositeTypesGroup getNodeName (allFlagsOff opts) = compositeTypesGroup getNodeName opts\<close>
  by (intro ext) (simp add: compositeTypesGroup_def compositeEntry_allFlagsOff)

lemma functionArgType_allFlagsOff: \<open>functionArgType (allFlagsOff opts) = functionArgType opts\<close>
  by (intro ext) (simp add: functionArgType_def allFlagsOff_def)

lemma functionArg_allFlagsOff:
  \<open>functionArg getNodeName (allFlagsOff opts) = functionArg getNodeName opts\<close>
  by (intro ext) (simp add: functionArg_def functionArgType_allFlagsOff)

lemma functionType_allFlagsOff:
  \<open>functionType getNodeName (allFlagsOff opts) = functionType getNodeName opts\<close>
  by (intro ext) (simp add: functionType_def functionArg_allFlagsOff)

lemma functionEntry_allFlagsOff:
  \<open>functionEntry getNodeName (allFlagsOff opts) = functionEntry getNodeName opts\<close>
  by (intro ext) (simp add: functionEntry_def functionType_allFlagsOff)

lemma functionsGroup_allFlagsOff:
  \<open>functionsGroup getNodeName (allFlagsOff opts) = functionsGroup getNodeName opts\<close>
  by (intro ext) (simp add: functionsGroup_def functionEntry_allFlagsOff)

lemma collect_allFlagsOff:
  assumes \<open>collect getNodeName opts sourceFile = Inr s1\<close>
  shows \<open>\<exists>s0. collect getNodeName (allFlagsOff opts) sourceFile = Inr s0 \<and>
              subseq (retained (typeStrings s0)) (retained (typeStrings s1)) \<and>
              length (retained (typeStrings s0)) \<le> length (retained (typeStrings s1)) \<and>
              enumNames s0 = enumNames s1 \<and> compositeTypeNames s0 = compositeTypeNames s1\<close>
proof -
  from sim_collect [OF related_allFlagsOff _ assms]
  obtain s0 where \<open>collect getNodeName (allFlagsOff opts) sourceFile = Inr s0\<close>
    and \<open>subseq (typeStrings s0) (typeStrings s1)\<close>
    and \<open>enumNames s0 = enumNames s1\<close> \<open>compositeTypeNames s0 = compositeTypeNames s1\<close>
    by (auto simp: initial_def)
  moreover from this have \<open>subseq (retained (typeStrings s0)) (retained (typeStrings s1))\<close>
    by (simp add: retained_def)
  moreover from this have \<open>length (retained (typeStrings s0)) \<le> length (retained (typeStrings s1))\<close>
    by (rule list_emb_length)
  ultimately show ?thesis by blast
qed

lemma tablesOrViewsGroup_allFlagsOff:
  assumes \<open>tablesOrViewsGroup getNodeName opts n s = Inr t1\<close>
  shows \<open>\<exists>t0. tablesOrViewsGroup getNodeName (allFlagsOff opts) n s = Inr t0 \<and>
              subseq (retained (typeStrings t0)) (retained (typeStrings t1)) \<and>
              length (retained (typeStrings t0)) \<le> length (retained (typeStrings t1))\<close>
proof -
  from simulatesD [OF sim_tablesOrViewsGroup [OF related_allFlagsOff] _ assms, of s]
  obtain t0 where \<open>tablesOrViewsGroup getNodeName (allFlagsOff opts) n s = Inr t0\<close>
    and \<open>subseq (typeStrings t0) (typeStrings t1)\<close>
    by auto
  moreover from this have \<open>subseq (retained (typeStrings t0)) (retained (typeStrings t1))\<close>
    by (simp add: retained_def)
  moreover from this have \<open>length (retained (typeStrings t0)) \<le> length (retained (typeStrings t1))\<close>
    by (rule list_emb_length)
  ultimately show ?thesis by blast
qed

text \<open>
  Claim C8. Whenever the call with some of the flags \<open>relationships\<close>, \<open>inserts\<close>,
  \<open>updates\<close>, \<open>deletes\<close> enabled returns, the call with all four flags off returns as
  well, and the declarations it emits (those that pass the filter) are a subsequence of
  the declarations emitted with the flags: every declaration emitted without the flags
  is emitted with them, in the same order, so there are at least as many. The same
  holds for the declarations that the callback of a \<open>Tables\<close> or \<open>Views\<close> group pushes,
  which are the declarations of tables and views; the callbacks of the other groups do
  not depend on the flags.
\<close>

theorem enabling_flags_keeps_every_declaration:
  \<open>(collect getNodeName opts sourceFile = Inr s1 \<longrightarrow>
      (\<exists>s0. collect getNodeName (allFlagsOff opts) sourceFile = Inr s0 \<and>
            subseq (retained (typeStrings s0)) (retained (typeStrings s1)) \<and>
            length (retained (typeStrings s0)) \<le> length (retained (typeStrings s1)) \<and>
            enumNames s0 = enumNames s1 \<and> compositeTypeNames s0 = compositeTypeNames s1)) \<and>
   (tablesOrViewsGroup getNodeName opts n s = Inr t1 \<longrightarrow>
      (\<exists>t0. tablesOrViewsGroup getNodeName (allFlagsOff opts) n s = Inr t0 \<and>
            subseq (retained (typeStrings t0)) (retained (typeStrings t1)) \<and>
            length (retained (typeStrings t0)) \<le> length (retained (typeStrings t1)))) \<and>
   enumsGroup getNodeName (allFlagsOff opts) = enumsGroup getNodeName opts \<and>
   compositeTypesGroup getNodeName (allFlagsOff opts) = compositeTypesGroup getNodeName opts \<and>
   functionsGroup getNodeName (allFlagsOff opts) = functionsGroup getNodeName opts\<close>
  using collect_allFlagsOff tablesOrViewsGroup_allFlagsOff enumsGroup_allFlagsOff
    compositeTypesGroup_allFlagsOff functionsGroup_allFlagsOff
  by blast

theorem enabling_flags_keeps_every_declaration_witness:
  \<open>\<exists>s0. collect getNodeNameSpec (allFlagsOff (defaultOptions\<lparr>inserts := True\<rparr>))
           [database moodGroups] = Inr s0 \<and>
        subseq (retained (typeStrings s0))
          (retained [''export type usersRow = { mood: Database["public"]["Enums"]["mood"]; }'',
                     ''export type usersInsert = { mood: Database["public"]["Enums"]["mood"]; }'',
                     ''export type mood = "happy" | "sad"''])\<close>
proof -
  have run: \<open>collect getNodeNameSpec (defaultOptions\<lparr>inserts := True\<rparr>) [database moodGroups] =
        Inr \<lparr>typeStrings =
               [''export type usersRow = { mood: Database["public"]["Enums"]["mood"]; }'',
                ''export type usersInsert = { mood: Database["public"]["Enums"]["mood"]; }'',
                ''export type mood = "happy" | "sad"''],
             enumNames = [(''mood'', ''mood'')], compositeTypeNames = []\<rparr>\<close>
    by code_simp
  from enabling_flags_keeps_every_declaration [THEN conjunct1, THEN mp, OF run]
  show ?thesis
    by auto
qed

section \<open>The order of the declarations\<close>

lemma appendState_initial [simp]: \<open>appendState s initial = s\<close>
  by (simp add: appendState_def initial_def)






section \<open>The names recorded for the rewriting\<close>
















section \<open>Enum entries that are neither a union nor a literal\<close>

lemma comparable_prefixes:
  \<open>prefix x (y @ z) \<Longrightarrow> comparable x y\<close>
  by (auto simp: comparable_def prefix_append)

lemma replaceAllFrom_scan:
  assumes \<open>\<forall>d<length Q. \<not> prefix p (drop d Q @ B)\<close>
  shows \<open>replaceAllFrom p r pre (Q @ B) = Q @ replaceAllFrom p r (pre @ Q) B\<close>
  using assms
proof (induction Q arbitrary: pre)
  case Nil
  show ?case by simp
next
  case (Cons c Q)
  from Cons.prems have \<open>\<not> prefix p ((c # Q) @ B)\<close>
    by force
  moreover from Cons.prems have \<open>\<forall>d<length Q. \<not> prefix p (drop d Q @ B)\<close>
    by force
  ultimately show ?case
    using Cons.IH [of \<open>pre @ [c]\<close>] by (subst replaceAllFrom.simps) simp
qed

lemma prefix_before_reference:
  assumes \<open>prefix p (A @ P @ B)\<close> and \<open>apart p P\<close>
  shows \<open>prefix p A\<close>
proof (rule ccontr)
  assume \<open>\<not> prefix p A\<close>
  with assms(1) obtain us where us: \<open>p = A @ us\<close> \<open>prefix us (P @ B)\<close>
    by (auto simp: prefix_append)
  with \<open>\<not> prefix p A\<close> have \<open>length A < length p\<close>
    by (cases us) auto
  moreover from us have \<open>comparable (drop (length A) p) P\<close>
    by (auto intro: comparable_prefixes)
  ultimately show False
    using assms(2) by (auto simp: apart_def)
qed

lemma replaceAllFrom_reference:
  assumes \<open>apart p P\<close> and \<open>\<not> prefix p (P @ B)\<close>
  shows \<open>replaceAllFrom p r pre (P @ B) = P @ replaceAllFrom p r (pre @ P) B\<close>
proof -
  have \<open>\<not> prefix p (drop d P @ B)\<close> if \<open>d < length P\<close> for d
  proof (cases d)
    case 0
    with assms(2) show ?thesis by simp
  next
    case (Suc e)
    show ?thesis
    proof
      assume \<open>prefix p (drop d P @ B)\<close>
      then have \<open>comparable (drop d P) p\<close>
        by (auto dest: comparable_prefixes simp: comparable_def)
      with assms(1) that Suc show False
        by (auto simp: apart_def)
    qed
  qed
  then show ?thesis
    by (intro replaceAllFrom_scan) simp
qed

lemma replaceAllFrom_around:
  assumes \<open>CHR ''$'' \<notin> set r\<close> and \<open>p \<noteq> []\<close> and \<open>apart p P\<close>
  shows \<open>replaceAllFrom p r [] (A @ P @ B) =
         replaceAllFrom p r [] A @ P @ replaceAllFrom p r [] B\<close>
proof (induction A rule: length_induct)
  case (1 A)
  note IH = 1 [rule_format]
  note plain = replaceAllFrom_plain_preceding [OF assms(1), of p]
  show ?case
  proof (cases \<open>prefix p (A @ P @ B)\<close>)
    case True
    then have \<open>prefix p A\<close>
      using assms(3) by (rule prefix_before_reference)
    then obtain A2 where A: \<open>A = p @ A2\<close>
      by (auto simp: prefix_def)
    with assms(2) have shorter: \<open>length A2 < length A\<close>
      by simp
    have \<open>replaceAllFrom p r [] (A @ P @ B) = r @ replaceAllFrom p r [] (A2 @ P @ B)\<close>
      using True assms(2) A
      by (subst replaceAllFrom.simps) (simp add: getSubstitution_plain [OF assms(1)] plain [of p])
    moreover have \<open>replaceAllFrom p r [] A = r @ replaceAllFrom p r [] A2\<close>
      using assms(2) A
      by (subst replaceAllFrom.simps) (simp add: getSubstitution_plain [OF assms(1)] plain [of p])
    ultimately show ?thesis
      using IH [OF shorter] by simp
  next
    case False
    then have notA: \<open>\<not> prefix p A\<close>
      by (auto simp: prefix_def)
    show ?thesis
    proof (cases A)
      case Nil
      with False have \<open>replaceAllFrom p r [] (A @ P @ B) = P @ replaceAllFrom p r ([] @ P) B\<close>
        using replaceAllFrom_reference [OF assms(3), of B r \<open>[]\<close>] by simp
      with Nil assms(2) show ?thesis
        by (simp add: replaceAllFrom_Nil plain [of P])
    next
      case (Cons a A1)
      have \<open>replaceAllFrom p r [] (A @ P @ B) = a # replaceAllFrom p r [] (A1 @ P @ B)\<close>
        using False Cons
        by (subst replaceAllFrom.simps) (simp add: plain [of \<open>[a]\<close>])
      moreover have \<open>replaceAllFrom p r [] A = a # replaceAllFrom p r [] A1\<close>
        using notA Cons
        by (subst replaceAllFrom.simps) (simp add: plain [of \<open>[a]\<close>])
      ultimately show ?thesis
        using IH [of A1] Cons by simp
    qed
  qed
qed

lemma replaceAll_around:
  assumes \<open>CHR ''$'' \<notin> set r\<close> and \<open>p \<noteq> []\<close> and \<open>apart p reference\<close>
  shows \<open>replaceAll (join reference segments) p r =
         join reference (map (\<lambda>u. replaceAll u p r) segments)\<close>
proof (induction segments)
  case Nil
  from assms(2) show ?case
    by (simp add: replaceAll_def replaceAllFrom_Nil)
next
  case (Cons u us)
  show ?case
  proof (cases us)
    case Nil
    then show ?thesis by simp
  next
    case inner: (Cons w ws)
    from replaceAllFrom_around [OF assms, of u \<open>join reference us\<close>] Cons.IH inner
    show ?thesis
      by (simp add: replaceAll_def)
  qed
qed

lemma rewriteNames_around:
  assumes \<open>\<forall>entry\<in>set entries. CHR ''$'' \<notin> set (snd entry)\<close>
    and \<open>clearOf schemaName category entries reference\<close>
  shows \<open>rewriteNames schemaName category entries (join reference segments) =
         join reference (map (rewriteNames schemaName category entries) segments)\<close>
  using assms
proof (induction entries arbitrary: segments)
  case Nil
  show ?case by (simp add: rewriteNames_def)
next
  case (Cons entry entries)
  from Cons.prems(2) have one: \<open>apart (enumPath (CHR ''"'') schemaName category (fst entry)) reference\<close>
    and two: \<open>apart (enumPath (CHR 0x27) schemaName category (fst entry)) reference\<close>
    and rest: \<open>clearOf schemaName category entries reference\<close>
    by (simp_all add: clearOf_def)
  from Cons.prems(1) have plain: \<open>CHR ''$'' \<notin> set (snd entry)\<close>
    and plains: \<open>\<forall>entry\<in>set entries. CHR ''$'' \<notin> set (snd entry)\<close>
    by simp_all
  have \<open>rewriteName schemaName category (join reference segments) entry =
        join reference (map (\<lambda>u. rewriteName schemaName category u entry) segments)\<close>
    by (cases entry)
       (use one two plain in
          \<open>simp add: rewriteName_def replaceAll_around enumPath_not_empty comp_def\<close>)
  with Cons.IH [OF plains rest, of \<open>map (\<lambda>u. rewriteName schemaName category u entry) segments\<close>]
  show ?case
    by (simp add: rewriteNames_def comp_def)
qed

lemma assemble_around:
  assumes \<open>\<forall>entry\<in>set (enumNames s) \<union> set (compositeTypeNames s). CHR ''$'' \<notin> set (snd entry)\<close>
    and \<open>clearOf (schema opts) ''Enums'' (enumNames s) reference\<close>
    and \<open>clearOf (schema opts) ''CompositeTypes'' (compositeTypeNames s) reference\<close>
    and \<open>joinTypes (typeStrings s) = join reference segments\<close>
  shows \<open>assemble opts s = join reference (map (rewriteDeclaration opts s) segments)\<close>
proof -
  have \<open>rewriteDeclaration opts s =
      (\<lambda>d. rewriteNames (schema opts) ''CompositeTypes'' (compositeTypeNames s)
             (rewriteNames (schema opts) ''Enums'' (enumNames s) d))\<close>
    by (intro ext) (simp add: rewriteDeclaration_def)
  with assms show ?thesis
    by (simp add: assemble_def rewriteNames_around comp_def)
qed

lemma comparable_Nil [simp]: \<open>comparable [] y\<close> \<open>comparable x []\<close>
  by (simp_all add: comparable_def)

lemma comparable_Cons [simp]: \<open>comparable (x # a) (y # b) \<longleftrightarrow> x = y \<and> comparable a b\<close>
  by (auto simp: comparable_def)

lemma comparable_same_append [simp]: \<open>comparable (xs @ a) (xs @ b) \<longleftrightarrow> comparable a b\<close>
  by (simp add: comparable_def)

lemma comparable_until:
  assumes \<open>comparable (xs @ c # a) (ys @ c # b)\<close> and \<open>c \<notin> set xs\<close> and \<open>c \<notin> set ys\<close>
  shows \<open>xs = ys\<close>
  using assms
proof (induction xs arbitrary: ys)
  case Nil
  then show ?case by (cases ys) auto
next
  case (Cons x xs)
  then show ?case by (cases ys) auto
qed

lemma paths_not_comparable:
  assumes \<open>plainName entryName\<close> and \<open>plainName other\<close>
    and \<open>q \<in> {CHR ''"'', CHR 0x27}\<close>
    and \<open>category \<in> {''Enums'', ''CompositeTypes''}\<close>
    and \<open>category' \<in> {''Enums'', ''CompositeTypes''}\<close>
    and \<open>(category, entryName) \<noteq> (category', other)\<close>
  shows \<open>\<not> comparable (enumPath q schemaName category entryName)
             (enumPath q' schemaName category' other)\<close>
proof
  assume \<open>comparable (enumPath q schemaName category entryName)
             (enumPath q' schemaName category' other)\<close>
  then have same: \<open>q' = q\<close>
    and rest: \<open>comparable (category @ q # '']['' @ q # entryName @ q # '']'')
                 (category' @ q # '']['' @ q # other @ q # '']'')\<close>
    by (auto simp: enumPath_def)
  from assms(3,4,5) rest have \<open>category = category'\<close>
    by auto
  with rest have \<open>comparable (entryName @ q # '']'') (other @ q # '']'')\<close>
    by simp
  moreover from assms(1,2,3) have \<open>q \<notin> set entryName\<close> \<open>q \<notin> set other\<close>
    by (auto simp: plainName_def)
  ultimately have \<open>entryName = other\<close>
    by (rule comparable_until)
  with \<open>category = category'\<close> assms(6) show False by simp
qed

lemma split_at:
  assumes \<open>xs @ c # ys = t @ c # y\<close> and \<open>c \<notin> set xs\<close>
  shows \<open>(t = xs \<and> y = ys) \<or> (\<exists>z. t = xs @ c # z \<and> ys = z @ c # y)\<close>
  using assms
proof (induction xs arbitrary: t)
  case Nil
  then show ?case by (cases t) auto
next
  case (Cons x xs)
  show ?case
  proof (cases t)
    case Nil
    with Cons.prems show ?thesis by simp
  next
    case inner: (Cons a t')
    with Cons.prems have \<open>x = a\<close> \<open>xs @ c # ys = t' @ c # y\<close> \<open>c \<notin> set xs\<close>
      by simp_all
    from Cons.IH [OF this(2,3)] inner \<open>x = a\<close> show ?thesis
      by auto
  qed
qed

lemma bracket_in_path:
  assumes \<open>q # schemaName @ q # '']['' @ q # category @ q # '']['' @ q # entryName @ q # '']'' =
           t @ CHR ''['' # y\<close>
    and \<open>CHR ''['' \<notin> set schemaName\<close> and \<open>CHR ''['' \<notin> set category\<close>
    and \<open>CHR ''['' \<notin> set entryName\<close> and \<open>q \<noteq> CHR ''[''\<close>
  shows \<open>t \<noteq> [] \<and> last t = CHR '']''\<close>
proof -
  define one where \<open>one = q # schemaName @ [q, CHR '']'']\<close>
  define two where \<open>two = q # category @ [q, CHR '']'']\<close>
  define three where \<open>three = q # entryName @ q # '']''\<close>
  from assms(1) have eq: \<open>one @ CHR ''['' # (two @ CHR ''['' # three) = t @ CHR ''['' # y\<close>
    by (simp add: one_def two_def three_def)
  from assms(2,5) have one: \<open>CHR ''['' \<notin> set one\<close>
    by (simp add: one_def)
  from assms(3,5) have two: \<open>CHR ''['' \<notin> set two\<close>
    by (simp add: two_def)
  from assms(4,5) have three: \<open>CHR ''['' \<notin> set three\<close>
    by (simp add: three_def)
  have lasts: \<open>last one = CHR '']''\<close> \<open>last two = CHR '']''\<close> \<open>one \<noteq> []\<close> \<open>two \<noteq> []\<close>
    by (simp_all add: one_def two_def)
  from split_at [OF eq one] show ?thesis
  proof
    assume \<open>t = one \<and> y = two @ CHR ''['' # three\<close>
    with lasts show ?thesis by simp
  next
    assume \<open>\<exists>z. t = one @ CHR ''['' # z \<and> two @ CHR ''['' # three = z @ CHR ''['' # y\<close>
    then obtain z where t: \<open>t = one @ CHR ''['' # z\<close>
      and z: \<open>two @ CHR ''['' # three = z @ CHR ''['' # y\<close>
      by blast
    from split_at [OF z two] show ?thesis
    proof
      assume \<open>z = two \<and> y = three\<close>
      with t lasts show ?thesis by simp
    next
      assume \<open>\<exists>z'. z = two @ CHR ''['' # z' \<and> three = z' @ CHR ''['' # y\<close>
      then obtain z' where \<open>three = z' @ CHR ''['' # y\<close>
        by blast
      then have \<open>CHR ''['' \<in> set three\<close>
        by simp
      with three show ?thesis by simp
    qed
  qed
qed

lemma path_tail_not_comparable:
  assumes \<open>CHR ''['' \<notin> set schemaName\<close> and \<open>CHR ''['' \<notin> set category\<close>
    and \<open>CHR ''['' \<notin> set entryName\<close> and \<open>q \<noteq> CHR ''[''\<close>
    and \<open>0 < d\<close> and \<open>d < length (enumPath q schemaName category entryName)\<close>
  shows \<open>\<not> comparable (drop d (enumPath q schemaName category entryName)) (''Database['' @ rest)\<close>
proof
  define p where \<open>p = enumPath q schemaName category entryName\<close>
  define tail where
    \<open>tail = q # schemaName @ q # '']['' @ q # category @ q # '']['' @ q # entryName @ q # '']''\<close>
  define start where \<open>start = ''Database[''\<close>
  define x where \<open>x = drop d p\<close>
  define u where \<open>u = take d p\<close>
  assume \<open>comparable (drop d (enumPath q schemaName category entryName)) (''Database['' @ rest)\<close>
  then have cmp: \<open>comparable x (start @ rest)\<close>
    by (simp add: x_def p_def start_def)
  have p: \<open>p = start @ tail\<close>
    by (simp add: p_def tail_def start_def enumPath_def)
  have split: \<open>p = u @ x\<close>
    by (simp add: u_def x_def)
  from assms(6) have nonempty: \<open>x \<noteq> []\<close>
    by (simp add: x_def p_def)
  from assms(5,6) have u: \<open>u \<noteq> []\<close>
    by (auto simp: u_def p_def)
  have \<open>last p = CHR '']''\<close>
    by (simp add: p_def enumPath_def)
  with nonempty split have lastx: \<open>last x = CHR '']''\<close>
    by simp
  have \<open>prefix start x\<close>
  proof -
    from cmp consider \<open>prefix x start\<close> | \<open>prefix start x\<close>
      unfolding comparable_def prefix_append by (auto simp: prefix_def)
    then show ?thesis
    proof cases
      case 1
      then obtain zs where \<open>start = x @ zs\<close>
        by (auto simp: prefix_def)
      with nonempty have \<open>last x \<in> set start\<close>
        by (metis last_in_set Un_iff set_append)
      with lastx show ?thesis
        by (simp add: start_def)
    next
      case 2
      then show ?thesis .
    qed
  qed
  then obtain y where y: \<open>x = start @ y\<close>
    by (auto simp: prefix_def)
  from split y p have \<open>start @ tail = u @ (start @ y)\<close>
    by simp
  then obtain w where \<open>(start = u @ w \<and> w @ tail = start @ y) \<or> (start @ w = u \<and> tail = w @ (start @ y))\<close>
    unfolding append_eq_append_conv2 by blast
  then consider w' where \<open>tail = (w' @ ''Database'') @ CHR ''['' # y\<close>
    | \<open>start = u @ w\<close> \<open>w \<noteq> []\<close> \<open>w @ tail = start @ y\<close>
    by (cases \<open>w = []\<close>) (auto simp: start_def)
  then show False
  proof cases
    case 1
    from bracket_in_path [OF this [unfolded tail_def] assms(1-4)] show False
      by simp
  next
    case 2
    from 2(1) u obtain u' where \<open>''atabase['' = u' @ w\<close>
      by (cases u) (auto simp: start_def)
    then have \<open>set w \<subseteq> set ''atabase[''\<close>
      by (metis Un_upper2 set_append)
    with 2(2) have \<open>hd w \<noteq> CHR ''D''\<close>
      by (cases w) auto
    moreover from 2(2,3) have \<open>hd w = CHR ''D''\<close>
      by (cases w) (auto simp: start_def)
    ultimately show False by simp
  qed
qed

lemma apart_paths:
  assumes \<open>plainName schemaName\<close> and \<open>plainName entryName\<close> and \<open>plainName other\<close>
    and \<open>q \<in> {CHR ''"'', CHR 0x27}\<close> and \<open>q' \<in> {CHR ''"'', CHR 0x27}\<close>
    and \<open>category \<in> {''Enums'', ''CompositeTypes''}\<close>
    and \<open>category' \<in> {''Enums'', ''CompositeTypes''}\<close>
    and \<open>(category, entryName) \<noteq> (category', other)\<close>
  shows \<open>apart (enumPath q schemaName category entryName) (enumPath q' schemaName category' other)\<close>
proof -
  let ?p = \<open>enumPath q schemaName category entryName\<close>
  let ?r = \<open>enumPath q' schemaName category' other\<close>
  have starts: \<open>\<exists>rest. enumPath c schemaName cat e = ''Database['' @ rest\<close> for c cat e
    by (simp add: enumPath_def)
  from assms(6,7) have cats: \<open>CHR ''['' \<notin> set category\<close> \<open>CHR ''['' \<notin> set category'\<close>
    by auto
  from assms(4,5) have quotes: \<open>q \<noteq> CHR ''[''\<close> \<open>q' \<noteq> CHR ''[''\<close>
    by auto
  from assms(1,2,3) have names: \<open>CHR ''['' \<notin> set schemaName\<close> \<open>CHR ''['' \<notin> set entryName\<close>
    \<open>CHR ''['' \<notin> set other\<close>
    by (simp_all add: plainName_def)
  have \<open>\<not> comparable (drop d ?p) ?r\<close> if \<open>d < length ?p\<close> for d
  proof (cases \<open>d = 0\<close>)
    case True
    with paths_not_comparable [OF assms(2,3,4,6,7,8)] show ?thesis
      by simp
  next
    case False
    from starts obtain rest where \<open>?r = ''Database['' @ rest\<close>
      by blast
    with path_tail_not_comparable [OF names(1) cats(1) names(2) quotes(1) _ that, of rest] False
    show ?thesis by simp
  qed
  moreover have \<open>\<not> comparable (drop d ?r) ?p\<close> if \<open>0 < d\<close> \<open>d < length ?r\<close> for d
  proof -
    from starts obtain rest where \<open>?p = ''Database['' @ rest\<close>
      by blast
    with path_tail_not_comparable [OF names(1) cats(2) names(3) quotes(2) that, of rest]
    show ?thesis by simp
  qed
  ultimately show ?thesis
    by (simp add: apart_def)
qed

lemma clearOf_names:
  assumes \<open>plainName schemaName\<close> and \<open>plainName entryName\<close>
    and \<open>\<forall>entry\<in>set entries. plainName (fst entry)\<close>
    and \<open>q \<in> {CHR ''"'', CHR 0x27}\<close>
    and \<open>category \<in> {''Enums'', ''CompositeTypes''}\<close>
    and \<open>category' \<in> {''Enums'', ''CompositeTypes''}\<close>
    and \<open>category \<noteq> category' \<or> entryName \<notin> fst ` set entries\<close>
  shows \<open>clearOf schemaName category entries (enumPath q schemaName category' entryName)\<close>
  unfolding clearOf_def
proof (intro ballI)
  fix entry q'
  assume entry: \<open>entry \<in> set entries\<close> and q': \<open>q' \<in> {CHR ''"'', CHR 0x27}\<close>
  with assms(3) have \<open>plainName (fst entry)\<close>
    by simp
  moreover from assms(7) entry have \<open>(category, fst entry) \<noteq> (category', entryName)\<close>
    by auto
  ultimately show \<open>apart (enumPath q' schemaName category (fst entry))
                     (enumPath q schemaName category' entryName)\<close>
    using assms(1,2,4,5,6) q' by (intro apart_paths)
qed

lemma assemble_unrecorded:
  assumes \<open>q \<in> {CHR ''"'', CHR 0x27}\<close>
    and \<open>plainName (schema opts)\<close> and \<open>plainName entryName\<close>
    and \<open>\<forall>entry\<in>set (enumNames t) \<union> set (compositeTypeNames t).
           plainName (fst entry) \<and> CHR ''$'' \<notin> set (snd entry)\<close>
    and \<open>entryName \<notin> fst ` set (enumNames t)\<close>
    and \<open>joinTypes (typeStrings t) = join (enumPath q (schema opts) ''Enums'' entryName) segments\<close>
  shows \<open>assemble opts t =
         join (enumPath q (schema opts) ''Enums'' entryName)
           (map (rewriteDeclaration opts t) segments)\<close>
proof (rule assemble_around)
  from assms(4) show \<open>\<forall>entry\<in>set (enumNames t) \<union> set (compositeTypeNames t).
      CHR ''$'' \<notin> set (snd entry)\<close>
    by simp
  from assms(1,2,3,4,5) show \<open>clearOf (schema opts) ''Enums'' (enumNames t)
      (enumPath q (schema opts) ''Enums'' entryName)\<close>
    by (intro clearOf_names) simp_all
  from assms(1,2,3,4) show \<open>clearOf (schema opts) ''CompositeTypes'' (compositeTypeNames t)
      (enumPath q (schema opts) ''Enums'' entryName)\<close>
    by (intro clearOf_names) simp_all
  from assms(6) show \<open>joinTypes (typeStrings t) =
      join (enumPath q (schema opts) ''Enums'' entryName) segments\<close> .
qed

lemma enumType_other:
  \<open>\<not> isUnionTypeNode c \<Longrightarrow> \<not> isLiteralTypeNode c \<Longrightarrow> enumType opts enumName c s = Inr s\<close>
  by (simp add: enumType_def)

text \<open>
  Claim C10, as amended. An entry of \<open>Enums\<close> none of whose children is a union type
  or a literal type (its body is, say, a reference to another type) leaves the state
  as it is: no declaration is pushed, no name is recorded for the rewriting, no error
  is raised, and the loop over the entries goes on as if the entry were not there. A
  qualified reference to the entry is left as it is when no recorded enum has the name
  of the entry: if the schema and the names contain no opening bracket and no quote,
  and the formatted names no \<open>$\<close>, then wherever a spelling of the path to that name
  stands in the joined text, it stands in the result, and the rewriting goes through
  the text in front of it, between two of them and behind it as if each part stood
  alone.
\<close>

theorem enum_entry_without_union_or_literal_is_omitted:
  assumes \<open>\<forall>c\<in>set (forEachChild n). \<not> isUnionTypeNode c \<and> \<not> isLiteralTypeNode c\<close>
  shows \<open>enumEntry getNodeName opts n s = Inr s \<and>
         forEach (enumEntry getNodeName opts) (n # rest) s =
           forEach (enumEntry getNodeName opts) rest s \<and>
         (getNodeName n = Some entryName \<and> q \<in> {CHR ''"'', CHR 0x27} \<and>
          plainName (schema opts) \<and> plainName entryName \<and>
          (\<forall>entry\<in>set (enumNames t) \<union> set (compositeTypeNames t).
             plainName (fst entry) \<and> CHR ''$'' \<notin> set (snd entry)) \<and>
          entryName \<notin> fst ` set (enumNames t) \<and>
          joinTypes (typeStrings t) =
            join (enumPath q (schema opts) ''Enums'' entryName) segments \<longrightarrow>
            assemble opts t =
              join (enumPath q (schema opts) ''Enums'' entryName)
                (map (rewriteDeclaration opts t) segments))\<close>
proof -
  have \<open>forEach (enumType opts (getNodeName n)) (forEachChild n) s = Inr s\<close>
    by (rule forEach_skip) (use assms in \<open>simp add: enumType_other\<close>)
  then have \<open>enumEntry getNodeName opts n s = Inr s\<close>
    by (simp add: enumEntry_def)
  then show ?thesis
    using assemble_unrecorded [of q opts entryName t segments] by simp
qed

theorem enum_entry_without_union_or_literal_is_omitted_witness:
  \<open>enumEntry getNodeNameSpec defaultOptions omittedEnumEntry initial = Inr initial \<and>
   forEach (enumEntry getNodeNameSpec defaultOptions) [omittedEnumEntry] initial = Inr initial \<and>
   transformTypesImpl (\<lambda>src. unrecordedLevelExample) getNodeNameSpec defaultOptions =
     Inr (''export type usersRow = { level: Database["public"]["Enums"]["level"]; mood: mood; }'' @
          [CHR '';'', CHR 0x0A] @ ''export type mood = "happy" | "sad"'')\<close>
proof -
  let ?t = \<open>\<lparr>typeStrings =
        [''export type usersRow = { level: Database["public"]["Enums"]["level"]; mood: Database["public"]["Enums"]["mood"]; }'',
         ''export type mood = "happy" | "sad"''],
      enumNames = [(''mood'', ''mood'')], compositeTypeNames = []\<rparr>\<close>
  let ?segments = \<open>[''export type usersRow = { level: '',
      ''; mood: Database["public"]["Enums"]["mood"]; }'' @ [CHR '';'', CHR 0x0A] @
      ''export type mood = "happy" | "sad"'']\<close>
  have h: \<open>\<forall>c\<in>set (forEachChild omittedEnumEntry). \<not> isUnionTypeNode c \<and> \<not> isLiteralTypeNode c\<close>
    by (simp add: omittedEnumEntry_def property_def)
  have run: \<open>collect getNodeNameSpec defaultOptions unrecordedLevelExample = Inr ?t\<close>
    by code_simp
  have named: \<open>getNodeNameSpec omittedEnumEntry = Some ''level''\<close>
    by (simp add: getNodeNameSpec_def omittedEnumEntry_def property_def)
  have plain: \<open>plainName (schema defaultOptions)\<close> \<open>plainName ''level''\<close>
    \<open>\<forall>entry\<in>set (enumNames ?t) \<union> set (compositeTypeNames ?t).
       plainName (fst entry) \<and> CHR ''$'' \<notin> set (snd entry)\<close>
    \<open>''level'' \<notin> fst ` set (enumNames ?t)\<close>
    by (simp_all add: plainName_def defaultOptions_def)
  have joined: \<open>joinTypes (typeStrings ?t) =
      join (enumPath (CHR ''"'') (schema defaultOptions) ''Enums'' ''level'') ?segments\<close>
    by code_simp
  have rewritten: \<open>join (enumPath (CHR ''"'') (schema defaultOptions) ''Enums'' ''level'')
        (map (rewriteDeclaration defaultOptions ?t) ?segments) =
      ''export type usersRow = { level: Database["public"]["Enums"]["level"]; mood: mood; }'' @
          [CHR '';'', CHR 0x0A] @ ''export type mood = "happy" | "sad"''\<close>
    by code_simp
  from enum_entry_without_union_or_literal_is_omitted
         [OF h, of getNodeNameSpec defaultOptions initial \<open>[]\<close> \<open>''level''\<close> \<open>CHR ''"''\<close> ?t ?segments]
    named plain joined
  have \<open>enumEntry getNodeNameSpec defaultOptions omittedEnumEntry initial = Inr initial\<close>
    and \<open>forEach (enumEntry getNodeNameSpec defaultOptions) [omittedEnumEntry] initial = Inr initial\<close>
    and \<open>assemble defaultOptions ?t =
      join (enumPath (CHR ''"'') (schema defaultOptions) ''Enums'' ''level'')
        (map (rewriteDeclaration defaultOptions ?t) ?segments)\<close>
    by simp_all
  with run rewritten show ?thesis
    by (simp add: transformTypesImpl_def)
qed

text \<open>
  The claim as stated fails: next to the entry \<open>level: Levels\<close>, which is omitted, the
  schema has an entry \<open>level: "a" | "b"\<close> of the same name, which is recorded. The
  reference of the row to \<open>level\<close> is rewritten to the formatted name
  \<open>level_enum\<close>.
\<close>

theorem reference_to_omitted_entry_is_rewritten:
  \<open>acceptedEnumBodies omittedEnumEntry = [] \<and>
   collect getNodeNameSpec suffixingOptions duplicateLevelExample =
     Inr \<lparr>typeStrings =
            [''export type usersRow = { level: Database["public"]["Enums"]["level"]; }'',
             ''export type level_enum = "a" | "b"''],
          enumNames = [(''level'', ''level_enum'')], compositeTypeNames = []\<rparr> \<and>
   transformTypesImpl (\<lambda>src. duplicateLevelExample) getNodeNameSpec suffixingOptions =
     Inr (''export type usersRow = { level: level_enum; }'' @ [CHR '';'', CHR 0x0A] @
          ''export type level_enum = "a" | "b"'')\<close>
proof -
  have \<open>acceptedEnumBodies omittedEnumEntry = []\<close>
    by code_simp
  moreover have \<open>collect getNodeNameSpec suffixingOptions duplicateLevelExample =
     Inr \<lparr>typeStrings =
            [''export type usersRow = { level: Database["public"]["Enums"]["level"]; }'',
             ''export type level_enum = "a" | "b"''],
          enumNames = [(''level'', ''level_enum'')], compositeTypeNames = []\<rparr>\<close>
    by code_simp
  moreover have \<open>transformTypesImpl (\<lambda>src. duplicateLevelExample) getNodeNameSpec suffixingOptions =
     Inr (''export type usersRow = { level: level_enum; }'' @ [CHR '';'', CHR 0x0A] @
          ''export type level_enum = "a" | "b"'')\<close>
    by code_simp
  ultimately show ?thesis
    by (intro conjI)
qed

end
